(* ===== verification/Gateway_Prelude.thy ===== *)
theory Gateway_Prelude
  imports Main "HOL-Library.Word" "HOL-Library.Multiset"
begin

text \<open>
  Shared vocabulary of the development: the machine integers, the error values that the
  gateway's fallible operations return, generic facts on lists and words, and the interface
  of a \<^emph>\<open>guarded pool\<close>: the resource pattern (an acquire that may hand out a guard, and
  a release that runs when the guard is dropped) that \<^verbatim>\<open>PortManager\<close>,
  \<^verbatim>\<open>IpConnectionLimiter\<close>, \<^verbatim>\<open>SourceRotator\<close> and \<^verbatim>\<open>Metrics\<close> all follow.
\<close>

section \<open>Machine integers\<close>

type_synonym u8 = "8 word"
type_synonym u16 = "16 word"
type_synonym u32 = "32 word"
type_synonym u64 = "64 word"

text \<open>\<^verbatim>\<open>usize\<close> on the 64-bit targets the gateway is released for.\<close>

type_synonym usize = "64 word"

text \<open>Rust's \<^verbatim>\<open>saturating_add\<close> on an unsigned integer.\<close>

definition sat_add :: "'w::len word \<Rightarrow> 'w word \<Rightarrow> 'w word" where
  "sat_add a b = (if unat a + unat b < 2 ^ LENGTH('w) then a + b else - 1)"

section \<open>I/O errors\<close>

text \<open>
  \<^verbatim>\<open>std::io::Error\<close> is represented by its kind: the message of an error is only ever
  logged. \<open>OtherError\<close> stands for every kind the gateway's code never names.
\<close>

datatype io_error =
    UnexpectedEof
  | InvalidData
  | InvalidInput
  | TimedOut
  | AddrNotAvailable
  | NetworkUnreachable
  | HostUnreachable
  | PermissionDenied
  | ConnectionRefused
  | ConnectionReset
  | BrokenPipe
  | OtherError

type_synonym 'a io_result = "io_error + 'a"

section \<open>Proof collections\<close>

named_theorems wire_simps \<open>unfolding rules for connections and what is written on them\<close>
named_theorems pool_simps \<open>unfolding rules for guarded pools\<close>

section \<open>Words\<close>

lemma unat_max_word: "unat (- 1 :: 'w::len word) = 2 ^ LENGTH('w) - 1"
  by (simp add: unsigned_minus_1_eq_mask mask_eq_exp_minus_1)

lemma unat_sat_add: "unat (sat_add a b) = min (unat a + unat b) (2 ^ LENGTH('w) - 1)"
  for a b :: "'w::len word"
proof (cases "unat a + unat b < 2 ^ LENGTH('w)")
  case True
  then show ?thesis by (simp add: sat_add_def unat_word_ariths)
next
  case False
  then show ?thesis by (simp add: sat_add_def unat_max_word)
qed

lemma sat_add_mono [simp]: "a \<le> sat_add a b"
proof -
  have "unat a \<le> 2 ^ LENGTH('a) - 1"
    by (metis less_Suc_eq_le Suc_pred' unsigned_less zero_less_numeral zero_less_power)
  then show ?thesis by (simp add: word_le_nat_alt unat_sat_add)
qed

lemma sat_add_max [simp]: "sat_add (- 1) b = (- 1 :: 'w::len word)"
proof -
  have "unat (sat_add (- 1 :: 'w word) b) = unat (- 1 :: 'w word)"
    by (simp add: unat_sat_add unat_max_word)
  then show ?thesis by (simp only: word_unat_eq_iff)
qed

lemma unat_u16_less [simp]: "unat (w :: u16) < 65536"
  using unsigned_less [of w] by simp

lemma unat_u8_less [simp]: "unat (w :: u8) < 256"
  using unsigned_less [of w] by simp

lemma unat_u32_less [simp]: "unat (w :: u32) < 4294967296"
  using unsigned_less [of w] by simp

lemma unat_usize_less [simp]: "unat (w :: usize) < 18446744073709551616"
  using unsigned_less [of w] by simp

lemma unat_of_nat_u16: "n < 65536 \<Longrightarrow> unat (of_nat n :: u16) = n"
  by (simp add: unat_of_nat)

lemma unat_of_nat_u32: "n < 4294967296 \<Longrightarrow> unat (of_nat n :: u32) = n"
  by (simp add: unat_of_nat)

section \<open>Lists\<close>

lemma takeWhile_dropWhile_split:
  "xs = takeWhile P xs @ dropWhile P xs"
  by simp

lemma dropWhile_none: "xs \<noteq> [] \<Longrightarrow> \<not> P (hd xs) \<Longrightarrow> dropWhile P xs = xs"
  by (cases xs) auto

lemma remdups_adj_sorted_distinct:
  "sorted (xs :: 'a::linorder list) \<Longrightarrow> distinct (remdups_adj xs)"
proof (induction xs rule: remdups_adj.induct)
  case (3 x y xs)
  show ?case
  proof (cases "x = y")
    case True
    with 3 show ?thesis by simp
  next
    case False
    with "3.prems" have "x < y" and "\<forall>z \<in> set xs. y \<le> z" by auto
    then have "x \<notin> set (y # xs)" by fastforce
    with False 3 show ?thesis by simp
  qed
qed simp_all

section \<open>Guarded pools\<close>

text \<open>
  A run of a pool is a sequence of client actions: acquire with some request, or drop one of
  the guards that are live (picked by its position). An action on a position with no live
  guard changes nothing: there is no such guard to drop.
\<close>

datatype 'r pool_event = Acquire 'r | Drop nat

fun drop_nth :: "nat \<Rightarrow> 'a list \<Rightarrow> 'a list" where
  "drop_nth i xs = take i xs @ drop (Suc i) xs"

fun pool_step ::
  "('p \<Rightarrow> 'r \<Rightarrow> 'g option \<times> 'p) \<Rightarrow> ('g \<Rightarrow> 'p \<Rightarrow> 'p) \<Rightarrow> 'p \<times> 'g list \<Rightarrow> 'r pool_event
    \<Rightarrow> 'p \<times> 'g list" where
  "pool_step acq rel (p, gs) (Acquire r) =
     (case acq p r of (None, p') \<Rightarrow> (p', gs) | (Some g, p') \<Rightarrow> (p', g # gs))"
| "pool_step acq rel (p, gs) (Drop i) =
     (if i < length gs then (rel (gs ! i) p, drop_nth i gs) else (p, gs))"

definition pool_run ::
  "('p \<Rightarrow> 'r \<Rightarrow> 'g option \<times> 'p) \<Rightarrow> ('g \<Rightarrow> 'p \<Rightarrow> 'p) \<Rightarrow> 'p \<times> 'g list
    \<Rightarrow> 'r pool_event list \<Rightarrow> 'p \<times> 'g list" where
  "pool_run acq rel = foldl (pool_step acq rel)"

lemma mset_drop_nth: "i < length xs \<Longrightarrow> mset (drop_nth i xs) = mset xs - {#xs ! i#}"
proof -
  assume i: "i < length xs"
  have "mset xs = mset (take i xs @ xs ! i # drop (Suc i) xs)"
    using i by (simp only: id_take_nth_drop [symmetric])
  then show ?thesis by simp
qed

text \<open>
  The contract of a pool: an invariant that relates the pool to the multiset of guards that
  are live, and that acquiring and dropping maintain. What the clients rely on is proved once
  here, for every order of acquires and drops.
\<close>

locale guard_pool =
  fixes acquire :: "'p \<Rightarrow> 'r \<Rightarrow> 'g option \<times> 'p"
    and release :: "'g \<Rightarrow> 'p \<Rightarrow> 'p"
    and inv :: "'p \<Rightarrow> 'g multiset \<Rightarrow> bool"
  assumes acquire_none: "inv p gs \<Longrightarrow> acquire p r = (None, p') \<Longrightarrow> inv p' gs"
    and acquire_some: "inv p gs \<Longrightarrow> acquire p r = (Some g, p') \<Longrightarrow> inv p' (add_mset g gs)"
    and release: "inv p (add_mset g gs) \<Longrightarrow> inv (release g p) gs"
begin

lemma step_inv:
  assumes "inv p (mset gs)" and "pool_step acquire release (p, gs) e = (p', gs')"
  shows "inv p' (mset gs')"
proof (cases e)
  case (Acquire r)
  with assms show ?thesis
    by (auto split: prod.splits option.splits dest: acquire_none acquire_some)
next
  case (Drop i)
  show ?thesis
  proof (cases "i < length gs")
    case True
    then have "mset gs = add_mset (gs ! i) (mset gs - {#gs ! i#})" by simp
    with assms(1) have "inv (release (gs ! i) p) (mset gs - {#gs ! i#})"
      by (metis release)
    moreover have "p' = release (gs ! i) p" and "gs' = drop_nth i gs"
      using assms(2) Drop True by simp_all
    ultimately show ?thesis using True mset_drop_nth by metis
  next
    case False
    with assms Drop show ?thesis by simp
  qed
qed

lemma run_inv:
  assumes "inv p (mset gs)" and "pool_run acquire release (p, gs) es = (p', gs')"
  shows "inv p' (mset gs')"
  using assms
proof (induction es arbitrary: p gs)
  case Nil
  then show ?case by (simp add: pool_run_def)
next
  case (Cons e es)
  obtain q hs where step: "pool_step acquire release (p, gs) e = (q, hs)" by fastforce
  with Cons.prems(1) have "inv q (mset hs)" by (rule step_inv)
  moreover have "pool_run acquire release (q, hs) es = (p', gs')"
    using Cons.prems(2) step by (simp add: pool_run_def)
  ultimately show ?case by (rule Cons.IH)
qed

lemma run_drained:
  assumes "inv p {#}" and "pool_run acquire release (p, []) es = (p', [])"
  shows "inv p' {#}"
  using run_inv [of p "[]" es p' "[]"] assms by simp

end

section \<open>Pools with a limit per key\<close>

text \<open>
  The abstract specification of admission control: how many guards each key holds, a key below
  the limit is admitted, and a guard that is dropped makes room for its key.
\<close>

definition admit :: "nat \<Rightarrow> 'k \<Rightarrow> ('k \<Rightarrow> nat) \<Rightarrow> 'k \<Rightarrow> nat" where
  "admit limit k a = (if a k < limit then a(k := Suc (a k)) else a)"

definition leave :: "'k \<Rightarrow> ('k \<Rightarrow> nat) \<Rightarrow> 'k \<Rightarrow> nat" where
  "leave k a = a(k := a k - 1)"

definition load_of :: "('g \<Rightarrow> 'k) \<Rightarrow> 'g multiset \<Rightarrow> 'k \<Rightarrow> nat" where
  "load_of key gs k = size (filter_mset (\<lambda>g. key g = k) gs)"

lemma load_of_add: "load_of key (add_mset g gs) = (load_of key gs)(key g := Suc (load_of key gs (key g)))"
  by (auto simp: load_of_def)

lemma load_of_empty [simp]: "load_of key {#} = (\<lambda>_. 0)"
  by (auto simp: load_of_def)

lemma load_of_remove: "load_of key gs = leave (key g) (load_of key (add_mset g gs))"
  by (auto simp: load_of_add leave_def)

locale admission_pool = guard_pool +
  fixes key :: "'c \<Rightarrow> 'b" and limit :: nat
  assumes granted_key: "inv p gs \<Longrightarrow> acquire p r = (Some g, p') \<Longrightarrow> key g = r"
    and refused_at_limit: "inv p gs \<Longrightarrow> fst (acquire p r) = None \<longleftrightarrow> load_of key gs r = limit"
    and below_limit: "inv p gs \<Longrightarrow> load_of key gs r \<le> limit"
begin

text \<open>Acquiring and dropping refine the specification.\<close>

lemma granted_admits:
  assumes "inv p gs" and "acquire p r = (Some g, p')"
  shows "load_of key (add_mset g gs) = admit limit r (load_of key gs)"
proof -
  have "load_of key gs r < limit"
    using refused_at_limit [OF assms(1), of r] below_limit [OF assms(1), of r] assms(2) by simp
  then show ?thesis using granted_key [OF assms] by (simp add: load_of_add admit_def)
qed

lemma refused_admits:
  "inv p gs \<Longrightarrow> acquire p r = (None, p') \<Longrightarrow> load_of key gs = admit limit r (load_of key gs)"
  using refused_at_limit [of p gs r] by (simp add: admit_def)

end

end
