(* ===== verification/Rust_Strings.thy ===== *)
theory Rust_Strings
  imports Gateway_Prelude
begin

text \<open>
  What the gateway uses of Rust's strings. A byte is a \<^typ>\<open>char\<close> (8 bits), so a byte
  string is a \<^typ>\<open>string\<close>; a \<^verbatim>\<open>str\<close> is a list of Unicode scalar values, given
  by their code points, because \<^verbatim>\<open>trim\<close>, \<^verbatim>\<open>is_control\<close> and
  \<^verbatim>\<open>escape_default\<close> work on characters and not on bytes. \<open>lit\<close> embeds an ASCII
  literal; \<open>utf8_encode\<close> and \<open>utf8_decode\<close> are \<^verbatim>\<open>as_bytes\<close> and the validation
  that reading bytes into a \<^verbatim>\<open>String\<close> performs. The theory closes with the two round
  trips that the components rest on: decimal numbers and UTF-8.
\<close>

section \<open>Characters\<close>

type_synonym byte = char
type_synonym bytes = "char list"
type_synonym uchar = nat
type_synonym ustr = "nat list"

definition ch :: "char \<Rightarrow> uchar" where
  "ch c = of_char c"

definition lit :: "string \<Rightarrow> ustr" where
  "lit s = map ch s"

text \<open>\<^verbatim>\<open>char::is_whitespace\<close>: Unicode's \<^verbatim>\<open>White_Space\<close>.\<close>

definition is_whitespace :: "uchar \<Rightarrow> bool" where
  "is_whitespace c \<longleftrightarrow>
     (9 \<le> c \<and> c \<le> 13) \<or> c = 32 \<or> c = 133 \<or> c = 160 \<or> c = 5760 \<or> (8192 \<le> c \<and> c \<le> 8202) \<or>
     c = 8232 \<or> c = 8233 \<or> c = 8239 \<or> c = 8287 \<or> c = 12288"

text \<open>\<^verbatim>\<open>char::is_control\<close>: the general category \<^verbatim>\<open>Cc\<close>.\<close>

definition is_control :: "uchar \<Rightarrow> bool" where
  "is_control c \<longleftrightarrow> c \<le> 31 \<or> (127 \<le> c \<and> c \<le> 159)"

definition is_ascii_digit :: "uchar \<Rightarrow> bool" where
  "is_ascii_digit c \<longleftrightarrow> 48 \<le> c \<and> c \<le> 57"

text \<open>\<^verbatim>\<open>char::is_ascii_graphic\<close>: \<^verbatim>\<open>'!'..='~'\<close>.\<close>

definition is_ascii_graphic :: "uchar \<Rightarrow> bool" where
  "is_ascii_graphic c \<longleftrightarrow> 33 \<le> c \<and> c \<le> 126"

definition ascii_upper :: "uchar \<Rightarrow> uchar" where
  "ascii_upper c = (if 97 \<le> c \<and> c \<le> 122 then c - 32 else c)"

definition ascii_lower :: "uchar \<Rightarrow> uchar" where
  "ascii_lower c = (if 65 \<le> c \<and> c \<le> 90 then c + 32 else c)"

abbreviation to_ascii_uppercase :: "ustr \<Rightarrow> ustr" where
  "to_ascii_uppercase \<equiv> map ascii_upper"

abbreviation to_ascii_lowercase :: "ustr \<Rightarrow> ustr" where
  "to_ascii_lowercase \<equiv> map ascii_lower"

section \<open>Searching, trimming and splitting\<close>

definition trim_start_matches :: "('a \<Rightarrow> bool) \<Rightarrow> 'a list \<Rightarrow> 'a list" where
  "trim_start_matches P s = dropWhile P s"

definition trim_end_matches :: "('a \<Rightarrow> bool) \<Rightarrow> 'a list \<Rightarrow> 'a list" where
  "trim_end_matches P s = rev (dropWhile P (rev s))"

definition trim :: "ustr \<Rightarrow> ustr" where
  "trim s = trim_end_matches is_whitespace (trim_start_matches is_whitespace s)"

fun starts_with :: "'a list \<Rightarrow> 'a list \<Rightarrow> bool" where
  "starts_with s [] = True"
| "starts_with [] (p # ps) = False"
| "starts_with (c # cs) (p # ps) = (c = p \<and> starts_with cs ps)"

definition ends_with_char :: "'a list \<Rightarrow> 'a \<Rightarrow> bool" where
  "ends_with_char s c \<longleftrightarrow> s \<noteq> [] \<and> last s = c"

text \<open>\<^verbatim>\<open>s.split_once(c)\<close>: around the first occurrence of the separator.\<close>

fun split_once :: "'a \<Rightarrow> 'a list \<Rightarrow> ('a list \<times> 'a list) option" where
  "split_once c [] = None"
| "split_once c (x # xs) =
     (if x = c then Some ([], xs)
      else map_option (\<lambda>(a, b). (x # a, b)) (split_once c xs))"

text \<open>\<^verbatim>\<open>s.rsplit_once(c)\<close>: around the last occurrence.\<close>

definition rsplit_once :: "'a \<Rightarrow> 'a list \<Rightarrow> ('a list \<times> 'a list) option" where
  "rsplit_once c s = map_option (\<lambda>(a, b). (rev b, rev a)) (split_once c (rev s))"

text \<open>\<^verbatim>\<open>s.split(c)\<close>: always at least one piece, possibly empty ones.\<close>

fun split_on :: "'a \<Rightarrow> 'a list \<Rightarrow> 'a list list" where
  "split_on c [] = [[]]"
| "split_on c (x # xs) =
     (if x = c then [] # split_on c xs
      else (case split_on c xs of [] \<Rightarrow> [[x]] | p # ps \<Rightarrow> (x # p) # ps))"

text \<open>\<^verbatim>\<open>s.split_whitespace()\<close>: the non-empty pieces between runs of whitespace.\<close>

function split_whitespace :: "ustr \<Rightarrow> ustr list" where
  "split_whitespace s =
     (let s' = dropWhile is_whitespace s
      in if s' = [] then []
         else takeWhile (\<lambda>c. \<not> is_whitespace c) s'
              # split_whitespace (dropWhile (\<lambda>c. \<not> is_whitespace c) s'))"
  by pat_completeness auto
termination
proof (relation "measure length", goal_cases)
  case (2 s s')
  let ?t = "dropWhile is_whitespace s"
  from 2 obtain c cs where t: "?t = c # cs" by (cases ?t) auto
  then have "\<not> is_whitespace c" using hd_dropWhile [of is_whitespace s] by simp
  then have "length (dropWhile (\<lambda>c. \<not> is_whitespace c) ?t) \<le> length cs"
    using t by (simp add: length_dropWhile_le)
  also have "\<dots> < length ?t" using t by simp
  also have "\<dots> \<le> length s" by (rule length_dropWhile_le)
  finally show ?case using 2 by simp
qed simp

declare split_whitespace.simps [simp del]

section \<open>Numbers\<close>

text \<open>
  \<^verbatim>\<open>FromStr\<close> of the unsigned integers: an optional \<^verbatim>\<open>+\<close>, then at least one decimal
  digit, failing as soon as the value exceeds the type's maximum.
\<close>

fun parse_digits :: "nat \<Rightarrow> nat \<Rightarrow> ustr \<Rightarrow> nat option" where
  "parse_digits mx acc [] = Some acc"
| "parse_digits mx acc (c # cs) =
     (if is_ascii_digit c
      then (let v = acc * 10 + (c - 48) in if mx < v then None else parse_digits mx v cs)
      else None)"

definition parse_uint :: "nat \<Rightarrow> ustr \<Rightarrow> nat option" where
  "parse_uint mx s =
     (case s of
        [] \<Rightarrow> None
      | c # cs \<Rightarrow>
          (if c = ch CHR ''+'' then (if cs = [] then None else parse_digits mx 0 cs)
           else parse_digits mx 0 s))"

definition parse_u16 :: "ustr \<Rightarrow> u16 option" where
  "parse_u16 s = map_option of_nat (parse_uint 65535 s)"

definition parse_u64 :: "ustr \<Rightarrow> u64 option" where
  "parse_u64 s = map_option of_nat (parse_uint 18446744073709551615 s)"

text \<open>\<^verbatim>\<open>Display\<close> of an unsigned integer.\<close>

fun show_nat :: "nat \<Rightarrow> ustr" where
  "show_nat n = (if n < 10 then [48 + n] else show_nat (n div 10) @ [48 + n mod 10])"

declare show_nat.simps [simp del]

definition show_word :: "'w::len word \<Rightarrow> ustr" where
  "show_word w = show_nat (unat w)"

definition hex_digit :: "nat \<Rightarrow> uchar" where
  "hex_digit d = (if d < 10 then 48 + d else 87 + d)"

fun show_hex :: "nat \<Rightarrow> ustr" where
  "show_hex n = (if n < 16 then [hex_digit n] else show_hex (n div 16) @ [hex_digit (n mod 16)])"

declare show_hex.simps [simp del]

text \<open>\<^verbatim>\<open>char::escape_default\<close>.\<close>

definition escape_default :: "uchar \<Rightarrow> ustr" where
  "escape_default c =
     (if c = 9 then [92, ch CHR ''t'']
      else if c = 13 then [92, ch CHR ''r'']
      else if c = 10 then [92, ch CHR ''n'']
      else if c = 39 \<or> c = 34 \<or> c = 92 then [92, c]
      else if 32 \<le> c \<and> c \<le> 126 then [c]
      else [92, ch CHR ''u'', ch CHR ''{''] @ show_hex c @ lit ''}'')"

section \<open>UTF-8\<close>

definition is_scalar :: "uchar \<Rightarrow> bool" where
  "is_scalar c \<longleftrightarrow> c < 1114112 \<and> \<not> (55296 \<le> c \<and> c \<le> 57343)"

definition utf8_char :: "uchar \<Rightarrow> nat list" where
  "utf8_char c =
     (if c < 128 then [c]
      else if c < 2048 then [192 + c div 64, 128 + c mod 64]
      else if c < 65536 then [224 + c div 4096, 128 + c div 64 mod 64, 128 + c mod 64]
      else [240 + c div 262144, 128 + c div 4096 mod 64, 128 + c div 64 mod 64, 128 + c mod 64])"

definition utf8_encode :: "ustr \<Rightarrow> bytes" where
  "utf8_encode s = map char_of (concat (map utf8_char s))"

definition is_cont :: "nat \<Rightarrow> bool" where
  "is_cont b \<longleftrightarrow> 128 \<le> b \<and> b \<le> 191"

fun utf8_dec :: "nat list \<Rightarrow> ustr option" where
  "utf8_dec [] = Some []"
| "utf8_dec (a # r) =
     (if a < 128 then map_option (Cons a) (utf8_dec r)
      else if 194 \<le> a \<and> a \<le> 223 then
        (case r of
           b # r' \<Rightarrow>
             (if is_cont b then map_option (Cons ((a - 192) * 64 + (b - 128))) (utf8_dec r')
              else None)
         | _ \<Rightarrow> None)
      else if 224 \<le> a \<and> a \<le> 239 then
        (case r of
           b # c # r' \<Rightarrow>
             (let v = (a - 224) * 4096 + (b - 128) * 64 + (c - 128) in
              if is_cont b \<and> is_cont c \<and> 2048 \<le> v \<and> is_scalar v
              then map_option (Cons v) (utf8_dec r') else None)
         | _ \<Rightarrow> None)
      else if 240 \<le> a \<and> a \<le> 244 then
        (case r of
           b # c # d # r' \<Rightarrow>
             (let v = (a - 240) * 262144 + (b - 128) * 4096 + (c - 128) * 64 + (d - 128) in
              if is_cont b \<and> is_cont c \<and> is_cont d \<and> 65536 \<le> v \<and> is_scalar v
              then map_option (Cons v) (utf8_dec r') else None)
         | _ \<Rightarrow> None)
      else None)"

definition utf8_decode :: "bytes \<Rightarrow> ustr option" where
  "utf8_decode bs = utf8_dec (map of_char bs)"

section \<open>Facts on trimming and splitting\<close>

lemma trim_end_matches_Nil [simp]: "trim_end_matches P [] = []"
  by (simp add: trim_end_matches_def)

lemma trim_end_matches_snoc [simp]:
  "trim_end_matches P (s @ [c]) = (if P c then trim_end_matches P s else s @ [c])"
  by (simp add: trim_end_matches_def)

lemma trim_end_matches_last:
  "trim_end_matches P s \<noteq> [] \<Longrightarrow> \<not> P (last (trim_end_matches P s))"
  by (induction s rule: rev_induct) (auto split: if_splits)

lemma trim_end_matches_prefix:
  "\<exists>t. s = trim_end_matches P s @ t \<and> (\<forall>c \<in> set t. P c)"
proof (induction s rule: rev_induct)
  case (snoc c s)
  then obtain t where "s = trim_end_matches P s @ t" "\<forall>c \<in> set t. P c" by blast
  then have "s @ [c] = trim_end_matches P s @ (t @ [c])" by (metis append.assoc)
  moreover have "\<forall>x \<in> set (t @ [c]). P x" if "P c"
    using that \<open>\<forall>c \<in> set t. P c\<close> by simp
  ultimately show ?case by (cases "P c") (metis trim_end_matches_snoc, simp)
qed simp

lemma trim_end_matches_id: "(s \<noteq> [] \<Longrightarrow> \<not> P (last s)) \<Longrightarrow> trim_end_matches P s = s"
  by (cases s rule: rev_cases) auto

lemma set_trim_end_matches: "set (trim_end_matches P s) \<subseteq> set s"
  by (induction s rule: rev_induct) auto

lemma trim_end_matches_Nil_iff: "trim_end_matches P s = [] \<longleftrightarrow> (\<forall>c \<in> set s. P c)"
  by (induction s rule: rev_induct) auto

lemma trim_end_matches_append:
  "trim_end_matches P (s @ t) =
     (if \<forall>c \<in> set t. P c then trim_end_matches P s else s @ trim_end_matches P t)"
proof (induction t rule: rev_induct)
  case (snoc c t)
  have "trim_end_matches P (s @ t @ [c]) = trim_end_matches P ((s @ t) @ [c])" by simp
  also have "\<dots> = (if P c then trim_end_matches P (s @ t) else s @ t @ [c])"
    by (subst trim_end_matches_snoc) simp
  finally show ?case using snoc by simp
qed simp

lemma trim_Nil_iff: "trim s = [] \<longleftrightarrow> (\<forall>c \<in> set s. is_whitespace c)"
proof -
  have "(\<forall>c \<in> set (dropWhile is_whitespace s). is_whitespace c) \<longleftrightarrow> dropWhile is_whitespace s = []"
    using hd_dropWhile [of is_whitespace s] by (metis empty_iff empty_set hd_in_set)
  then show ?thesis
    by (simp add: trim_def trim_start_matches_def trim_end_matches_Nil_iff dropWhile_eq_Nil_conv)
qed

lemma trim_trim_end: "trim (trim_end_matches is_whitespace s) = trim s"
proof (cases "\<forall>c \<in> set s. is_whitespace c")
  case True
  then have "trim_end_matches is_whitespace s = []" by (simp add: trim_end_matches_Nil_iff)
  with True show ?thesis by (simp add: trim_Nil_iff [THEN iffD2])
next
  case False
  let ?e = "trim_end_matches is_whitespace s"
  from trim_end_matches_prefix [of s is_whitespace]
  obtain t where t: "s = ?e @ t" "\<forall>c \<in> set t. is_whitespace c" by (elim exE conjE)
  from False t have "\<exists>c \<in> set ?e. \<not> is_whitespace c" by (metis UnE set_append)
  then have "dropWhile is_whitespace (?e @ t) = dropWhile is_whitespace ?e @ t" by auto
  then have "dropWhile is_whitespace s = dropWhile is_whitespace ?e @ t" using t(1) by simp
  then show ?thesis
    using t(2) by (simp add: trim_def trim_start_matches_def trim_end_matches_append)
qed

lemma trim_id: "(s \<noteq> [] \<Longrightarrow> \<not> is_whitespace (hd s) \<and> \<not> is_whitespace (last s)) \<Longrightarrow> trim s = s"
  by (cases "s = []")
     (simp_all add: trim_def trim_start_matches_def dropWhile_none trim_end_matches_id)

lemma set_trim: "set (trim s) \<subseteq> set s"
  unfolding trim_def trim_start_matches_def
  using set_trim_end_matches set_dropWhileD by fastforce

lemma trim_edges:
  assumes "trim s \<noteq> []"
  shows "\<not> is_whitespace (hd (trim s)) \<and> \<not> is_whitespace (last (trim s))"
proof -
  let ?t = "dropWhile is_whitespace s"
  from trim_end_matches_prefix [of ?t is_whitespace]
  obtain u where u: "?t = trim_end_matches is_whitespace ?t @ u" by (elim exE conjE)
  have ne: "trim_end_matches is_whitespace ?t \<noteq> []"
    using assms by (simp add: trim_def trim_start_matches_def)
  have "hd ?t = hd (trim_end_matches is_whitespace ?t @ u)" using u by (rule arg_cong)
  then have "hd ?t = hd (trim_end_matches is_whitespace ?t)" using ne by simp
  moreover have "\<not> is_whitespace (hd ?t)"
    using ne by (metis hd_dropWhile trim_end_matches_Nil)
  ultimately show ?thesis
    using ne trim_end_matches_last [of is_whitespace ?t]
    by (simp add: trim_def trim_start_matches_def)
qed

lemma trim_trim [simp]: "trim (trim s) = trim s"
  by (rule trim_id) (rule trim_edges)

lemma split_once_None: "split_once c s = None \<longleftrightarrow> c \<notin> set s"
  by (induction s) auto

lemma split_once_Some:
  "split_once c s = Some (a, b) \<longleftrightarrow> s = a @ c # b \<and> c \<notin> set a"
proof (induction s arbitrary: a)
  case (Cons x xs)
  then show ?case by (cases a) auto
qed simp

lemma split_once_append [simp]: "c \<notin> set a \<Longrightarrow> split_once c (a @ c # b) = Some (a, b)"
  by (simp add: split_once_Some)

lemma rsplit_once_Some:
  "rsplit_once c s = Some (a, b) \<longleftrightarrow> s = a @ c # b \<and> c \<notin> set b"
proof -
  have "rsplit_once c s = Some (a, b) \<longleftrightarrow> split_once c (rev s) = Some (rev b, rev a)"
    by (auto simp: rsplit_once_def)
  also have "\<dots> \<longleftrightarrow> rev s = rev (a @ c # b) \<and> c \<notin> set b"
    by (simp add: split_once_Some)
  finally show ?thesis by (simp only: rev_is_rev_conv)
qed

lemma split_on_nonempty [simp]: "split_on c s \<noteq> []"
  by (induction s) (auto split: list.splits)

lemma split_on_single: "c \<notin> set s \<Longrightarrow> split_on c s = [s]"
  by (induction s) auto

lemma split_on_append: "c \<notin> set a \<Longrightarrow> split_on c (a @ c # b) = a # split_on c b"
  by (induction a) auto

lemma split_on_pieces: "p \<in> set (split_on c s) \<Longrightarrow> c \<notin> set p"
  by (induction s arbitrary: p) (fastforce split: if_splits list.splits)+

lemma starts_with_prefix: "starts_with s p \<longleftrightarrow> (\<exists>t. s = p @ t)"
  by (induction s p rule: starts_with.induct) auto

section \<open>Facts on case conversion\<close>

lemma ascii_upper_idem [simp]: "ascii_upper (ascii_upper c) = ascii_upper c"
  by (auto simp: ascii_upper_def)

lemma ascii_upper_lower [simp]: "ascii_upper (ascii_lower c) = ascii_upper c"
  by (auto simp: ascii_upper_def ascii_lower_def)

lemma ascii_upper_control [simp]: "is_control (ascii_upper c) = is_control c"
  by (auto simp: ascii_upper_def is_control_def)

section \<open>Decimal numbers\<close>

lemma show_nat_nonempty [simp]: "show_nat n \<noteq> []"
  by (subst show_nat.simps) simp

lemma show_nat_digits: "c \<in> set (show_nat n) \<Longrightarrow> is_ascii_digit c"
proof (induction n rule: show_nat.induct)
  case (1 n)
  then show ?case
    by (subst (asm) show_nat.simps) (auto simp: is_ascii_digit_def split: if_splits)
qed

lemma parse_digits_snoc:
  "parse_digits mx acc (s @ [c]) =
     (case parse_digits mx acc s of
        None \<Rightarrow> None
      | Some v \<Rightarrow>
          (if is_ascii_digit c then
             (if mx < v * 10 + (c - 48) then None else Some (v * 10 + (c - 48)))
           else None))"
  by (induction s arbitrary: acc) (auto simp: Let_def)

lemma parse_digits_show: "n \<le> mx \<Longrightarrow> parse_digits mx 0 (show_nat n) = Some n"
proof (induction n rule: show_nat.induct)
  case (1 n)
  show ?case
  proof (cases "n < 10")
    case True
    with "1.prems" show ?thesis
      by (subst show_nat.simps) (simp add: is_ascii_digit_def)
  next
    case False
    with 1 have "parse_digits mx 0 (show_nat (n div 10)) = Some (n div 10)" by simp
    moreover have "n mod 10 < 10" by simp
    moreover have "n div 10 * 10 + n mod 10 = n" by simp
    ultimately show ?thesis using False "1.prems"
      by (subst show_nat.simps) (simp add: parse_digits_snoc is_ascii_digit_def)
  qed
qed

lemma parse_uint_show [simp]: "n \<le> mx \<Longrightarrow> parse_uint mx (show_nat n) = Some n"
proof -
  assume n: "n \<le> mx"
  obtain c cs where s: "show_nat n = c # cs" by (cases "show_nat n") auto
  then have "is_ascii_digit c" using show_nat_digits [of c n] by simp
  then have "c \<noteq> ch CHR ''+''" by (simp add: is_ascii_digit_def ch_def)
  with s n show ?thesis by (simp add: parse_uint_def parse_digits_show [symmetric])
qed

lemma parse_digits_bound: "parse_digits mx acc s = Some v \<Longrightarrow> acc \<le> mx \<Longrightarrow> v \<le> mx"
  by (induction s arbitrary: acc) (auto simp: Let_def split: if_splits)

lemma parse_uint_bound: "parse_uint mx s = Some v \<Longrightarrow> v \<le> mx"
  unfolding parse_uint_def
  by (auto simp del: parse_digits.simps dest: parse_digits_bound split: list.splits if_splits)

lemma parse_u16_show [simp]: "parse_u16 (show_word (w :: u16)) = Some w"
proof -
  have "unat w \<le> 65535" using unat_u16_less [of w] by linarith
  then show ?thesis by (simp add: parse_u16_def show_word_def)
qed

lemma not_in_show_nat [simp]: "\<not> is_ascii_digit c \<Longrightarrow> c \<notin> set (show_nat n)"
  using show_nat_digits by blast

lemma trim_show_nat [simp]: "trim (show_nat n) = show_nat n"
proof (rule trim_id)
  have ws: "\<not> is_whitespace c" if "c \<in> set (show_nat n)" for c
    using show_nat_digits [OF that] by (auto simp: is_ascii_digit_def is_whitespace_def)
  show "\<not> is_whitespace (hd (show_nat n)) \<and> \<not> is_whitespace (last (show_nat n))"
    by (auto intro!: ws)
qed

section \<open>UTF-8 round trips\<close>

lemma utf8_char_bytes: "is_scalar c \<Longrightarrow> b \<in> set (utf8_char c) \<Longrightarrow> b < 256"
  by (auto simp: utf8_char_def is_scalar_def split: if_splits)

text \<open>Base-64 digits: the six-bit groups that the encoding splits a code point into.\<close>

lemma digits64_2: "f < 64 \<Longrightarrow> (e * 64 + f) div 64 = e \<and> (e * 64 + f) mod 64 = (f :: nat)"
  by simp

lemma digits64_3:
  assumes "b < 64" "c < (64 :: nat)"
  shows "(a * 4096 + b * 64 + c) div 4096 = a" "(a * 4096 + b * 64 + c) div 64 mod 64 = b"
    "(a * 4096 + b * 64 + c) mod 64 = c"
proof -
  let ?v = "a * 4096 + b * 64 + c"
  have v: "?v = (a * 64 + b) * 64 + c" by simp
  then have d: "?v div 64 = a * 64 + b" using digits64_2 [OF assms(2)] by metis
  then show "?v div 64 mod 64 = b" using digits64_2 [OF assms(1)] by metis
  have "?v div 4096 = ?v div 64 div 64" by (simp add: div_mult2_eq [symmetric])
  then show "?v div 4096 = a" using d digits64_2 [OF assms(1)] by metis
  show "?v mod 64 = c" using v digits64_2 [OF assms(2)] by metis
qed

lemma digits64_4:
  assumes "b < 64" "c < 64" "d < (64 :: nat)"
  shows "(a * 262144 + b * 4096 + c * 64 + d) div 262144 = a"
    "(a * 262144 + b * 4096 + c * 64 + d) div 4096 mod 64 = b"
    "(a * 262144 + b * 4096 + c * 64 + d) div 64 mod 64 = c"
    "(a * 262144 + b * 4096 + c * 64 + d) mod 64 = d"
proof -
  let ?v = "a * 262144 + b * 4096 + c * 64 + d"
  have v: "?v = (a * 64 + b) * 4096 + c * 64 + d" by simp
  then have q: "?v div 4096 = a * 64 + b" using digits64_3(1) [OF assms(2,3)] by metis
  then show "?v div 4096 mod 64 = b" using digits64_2 [OF assms(1)] by metis
  have "?v div 262144 = ?v div 4096 div 64" by (simp add: div_mult2_eq [symmetric])
  then show "?v div 262144 = a" using q digits64_2 [OF assms(1)] by metis
  show "?v div 64 mod 64 = c" "?v mod 64 = d" using v digits64_3(2,3) [OF assms(2,3)] by metis+
qed

lemma utf8_char_2: "2 \<le> e \<Longrightarrow> e < 32 \<Longrightarrow> f < 64
    \<Longrightarrow> utf8_char (e * 64 + f) = [192 + e, 128 + f]"
  by (simp add: utf8_char_def)

lemma utf8_char_3:
  "a < 16 \<Longrightarrow> b < 64 \<Longrightarrow> c < 64 \<Longrightarrow> 2048 \<le> a * 4096 + b * 64 + c
    \<Longrightarrow> utf8_char (a * 4096 + b * 64 + c) = [224 + a, 128 + b, 128 + c]"
  by (simp add: utf8_char_def digits64_3)

lemma utf8_char_4:
  "a < 5 \<Longrightarrow> b < 64 \<Longrightarrow> c < 64 \<Longrightarrow> d < 64 \<Longrightarrow> 65536 \<le> a * 262144 + b * 4096 + c * 64 + d
    \<Longrightarrow> utf8_char (a * 262144 + b * 4096 + c * 64 + d) = [240 + a, 128 + b, 128 + c, 128 + d]"
  by (simp add: utf8_char_def digits64_4)

lemma utf8_dec_char:
  assumes "is_scalar c"
  shows "utf8_dec (utf8_char c @ r) = map_option (Cons c) (utf8_dec r)"
proof -
  consider "c < 128" | "128 \<le> c" "c < 2048" | "2048 \<le> c" "c < 65536" | "65536 \<le> c" by linarith
  then show ?thesis
  proof cases
    case 1
    then show ?thesis by (simp add: utf8_char_def)
  next
    case 2
    define e f where "e = c div 64" and "f = c mod 64"
    then have "c = e * 64 + f" and f: "f < 64" by simp_all
    moreover from this 2 have "2 \<le> e" "e < 32" by linarith+
    ultimately show ?thesis by (simp add: utf8_char_2 is_cont_def)
  next
    case 3
    define x y z where "x = c div 4096" and "y = c div 64 mod 64" and "z = c mod 64"
    have "c = c div 64 * 64 + z" "c div 64 = c div 64 div 64 * 64 + y"
      unfolding y_def z_def by simp_all
    then have c: "c = x * 4096 + y * 64 + z" unfolding x_def by (simp add: div_mult2_eq [symmetric])
    moreover have "y < 64" "z < 64" unfolding y_def z_def by simp_all
    moreover from c 3 have "x < 16" by linarith
    ultimately show ?thesis using 3 assms by (simp add: utf8_char_3 is_cont_def Let_def)
  next
    case 4
    define w x y z where "w = c div 262144" and "x = c div 4096 mod 64"
      and "y = c div 64 mod 64" and "z = c mod 64"
    have "c = c div 64 * 64 + z" "c div 64 = c div 64 div 64 * 64 + y"
      "c div 4096 = c div 4096 div 64 * 64 + x"
      unfolding x_def y_def z_def by simp_all
    then have c: "c = w * 262144 + x * 4096 + y * 64 + z"
      unfolding w_def by (simp add: div_mult2_eq [symmetric])
    moreover have "x < 64" "y < 64" "z < 64" unfolding x_def y_def z_def by simp_all
    moreover from c assms have "w < 5" unfolding is_scalar_def by linarith
    ultimately show ?thesis using 4 assms by (simp add: utf8_char_4 is_cont_def Let_def)
  qed
qed

lemma utf8_dec_enc: "list_all is_scalar s \<Longrightarrow> utf8_dec (concat (map utf8_char s)) = Some s"
  by (induction s) (auto simp: utf8_dec_char)

lemma of_char_char_of_id: "(\<forall>b \<in> set bs. b < 256) \<Longrightarrow> map (of_char \<circ> char_of) bs = (bs :: nat list)"
  by (induction bs) (auto simp: of_char_of)

lemma utf8_decode_encode: "list_all is_scalar s \<Longrightarrow> utf8_decode (utf8_encode s) = Some s"
proof -
  assume s: "list_all is_scalar s"
  then have "\<forall>b \<in> set (concat (map utf8_char s)). b < 256"
    by (auto simp: list_all_iff dest: utf8_char_bytes)
  then show ?thesis
    using s by (simp add: utf8_decode_def utf8_encode_def of_char_char_of_id utf8_dec_enc)
qed

lemma is_contE:
  assumes "is_cont b" obtains b' where "b = 128 + b'" "b' < 64"
  using assms that [of "b - 128"] by (auto simp: is_cont_def)

lemma utf8_dec_sound:
  "utf8_dec bs = Some s \<Longrightarrow> concat (map utf8_char s) = bs \<and> list_all is_scalar s"
proof (induction bs arbitrary: s rule: utf8_dec.induct)
  case 1
  then show ?case by simp
next
  case (2 a r)
  consider "a < 128" | "194 \<le> a" "a \<le> 223" | "224 \<le> a" "a \<le> 239" | "240 \<le> a" "a \<le> 244"
    using "2.prems" by (auto split: if_splits)
  then show ?case
  proof cases
    case 1
    with 2 show ?thesis by (auto simp: utf8_char_def is_scalar_def)
  next
    case A: 2
    then obtain e where e: "a = 192 + e" "2 \<le> e" "e < 32" by (auto dest!: le_Suc_ex)
    from A "2.prems" obtain b r' s' where r: "r = b # r'" "is_cont b" "utf8_dec r' = Some s'"
        "s = ((a - 192) * 64 + (b - 128)) # s'"
      by (auto split: if_splits list.splits)
    then obtain f where f: "b = 128 + f" "f < 64" by (blast elim: is_contE)
    have "concat (map utf8_char s') = r' \<and> list_all is_scalar s'"
      using A r "2.IH"(2) by simp
    moreover have "is_scalar (e * 64 + f)" using e f by (simp add: is_scalar_def)
    ultimately show ?thesis using r e f by (simp add: utf8_char_2)
  next
    case A: 3
    then obtain x where x: "a = 224 + x" "x < 16" by (auto dest!: le_Suc_ex)
    from A "2.prems" obtain b c r' s' where r: "r = b # c # r'" "is_cont b" "is_cont c"
        "2048 \<le> (a - 224) * 4096 + (b - 128) * 64 + (c - 128)"
        "is_scalar ((a - 224) * 4096 + (b - 128) * 64 + (c - 128))"
        "utf8_dec r' = Some s'" "s = ((a - 224) * 4096 + (b - 128) * 64 + (c - 128)) # s'"
      by (auto simp: Let_def split: if_splits list.splits)
    then obtain y z where yz: "b = 128 + y" "y < 64" "c = 128 + z" "z < 64"
      by (blast elim: is_contE)
    have "concat (map utf8_char s') = r' \<and> list_all is_scalar s'"
      using A r "2.IH"(3) by (simp add: Let_def)
    then show ?thesis using r x yz by (simp add: utf8_char_3)
  next
    case A: 4
    then obtain w where w: "a = 240 + w" "w < 5" by (auto dest!: le_Suc_ex)
    from A "2.prems" obtain b c d r' s' where r: "r = b # c # d # r'" "is_cont b" "is_cont c" "is_cont d"
        "65536 \<le> (a - 240) * 262144 + (b - 128) * 4096 + (c - 128) * 64 + (d - 128)"
        "is_scalar ((a - 240) * 262144 + (b - 128) * 4096 + (c - 128) * 64 + (d - 128))"
        "utf8_dec r' = Some s'"
        "s = ((a - 240) * 262144 + (b - 128) * 4096 + (c - 128) * 64 + (d - 128)) # s'"
      by (auto simp: Let_def split: if_splits list.splits)
    then obtain x y z where xyz: "b = 128 + x" "x < 64" "c = 128 + y" "y < 64" "d = 128 + z" "z < 64"
      by (blast elim: is_contE)
    have "concat (map utf8_char s') = r' \<and> list_all is_scalar s'"
      using A r "2.IH"(4) by (simp add: Let_def)
    then show ?thesis using r w xyz by (simp add: utf8_char_4)
  qed
qed

text \<open>Bytes that decode are exactly what encoding the string gives back.\<close>

lemma utf8_encode_decode: "utf8_decode bs = Some s \<Longrightarrow> utf8_encode s = bs"
  using utf8_dec_sound [of "map of_char bs" s]
  by (auto simp: utf8_decode_def utf8_encode_def comp_def)

lemma utf8_decode_scalar: "utf8_decode bs = Some s \<Longrightarrow> list_all is_scalar s"
  by (auto simp: utf8_decode_def dest: utf8_dec_sound)

text \<open>A newline byte only ever encodes the newline character.\<close>

lemma utf8_char_newline: "10 \<in> set (utf8_char c) \<longleftrightarrow> c = 10"
  by (auto simp: utf8_char_def)

lemma utf8_encode_append [simp]: "utf8_encode (s @ t) = utf8_encode s @ utf8_encode t"
  by (simp add: utf8_encode_def)

lemma char_of_10: "char_of (10 :: nat) = CHR 0x0A"
proof -
  have "of_char (CHR 0x0A) = (10 :: nat)" by simp
  then show ?thesis by (metis char_of_char)
qed

lemma utf8_encode_newline: "utf8_encode [10] = [CHR 0x0A]"
  by (simp add: utf8_encode_def utf8_char_def char_of_10)

lemma char_of_newline: "b < 256 \<Longrightarrow> char_of (b :: nat) = (CHR 0x0A) \<longleftrightarrow> b = 10"
proof
  assume b: "b < 256" and "char_of b = CHR 0x0A"
  then have "of_char (char_of b :: char) = (of_char (CHR 0x0A) :: nat)" by simp
  moreover have "of_char (char_of b :: char) = b" using b by (simp add: of_char_of)
  moreover have "of_char (CHR 0x0A) = (10 :: nat)" by simp
  ultimately show "b = 10" by (simp only:)
qed (simp add: char_of_10)

lemma newline_in_utf8_encode:
  "list_all is_scalar s \<Longrightarrow> CHR 0x0A \<in> set (utf8_encode s) \<longleftrightarrow> 10 \<in> set s"
proof (induction s)
  case Nil
  then show ?case by (simp add: utf8_encode_def)
next
  case (Cons c s)
  have "CHR 0x0A \<in> char_of ` set (utf8_char c) \<longleftrightarrow> 10 \<in> set (utf8_char c)"
  proof
    assume "CHR 0x0A \<in> char_of ` set (utf8_char c)"
    then obtain b where b: "b \<in> set (utf8_char c)" "char_of b = CHR 0x0A" by (auto simp: image_iff)
    moreover have "b < 256" using Cons.prems b(1) utf8_char_bytes by auto
    ultimately show "10 \<in> set (utf8_char c)" by (simp add: char_of_newline)
  next
    assume "10 \<in> set (utf8_char c)"
    then show "CHR 0x0A \<in> char_of ` set (utf8_char c)" 
      by (rule image_eqI [where x = 10 and f = char_of, OF char_of_10 [symmetric]])
  qed
  with Cons show ?case by (auto simp: utf8_encode_def utf8_char_newline)
qed

end
