(* ===== verification/Rust_Net.thy ===== *)
theory Rust_Net
  imports Rust_Strings
begin

text \<open>
  The addresses of \<^verbatim>\<open>std::net\<close> that the gateway handles: \<^verbatim>\<open>Ipv4Addr\<close> with its order
  and text forms, \<^verbatim>\<open>IpAddr\<close> and \<^verbatim>\<open>SocketAddr\<close>. \<^verbatim>\<open>Ipv4Addr\<close> is an instance of
  \<^verbatim>\<open>linorder\<close>, which is what sorting the source addresses relies on.
\<close>

section \<open>Addresses\<close>

datatype ipv4_addr = Ipv4 u8 u8 u8 u8

text \<open>An IPv6 address is its eight 16-bit segments.\<close>

datatype ip_addr = V4 ipv4_addr | V6 "u16 list"

datatype socket_addr = SocketAddr (sa_ip: ip_addr) (sa_port: u16)

fun octets :: "ipv4_addr \<Rightarrow> u8 list" where
  "octets (Ipv4 a b c d) = [a, b, c, d]"

fun is_ipv4 :: "socket_addr \<Rightarrow> bool" where
  "is_ipv4 (SocketAddr (V4 _) _) = True"
| "is_ipv4 (SocketAddr (V6 _) _) = False"

definition UNSPECIFIED :: ipv4_addr where
  "UNSPECIFIED = Ipv4 0 0 0 0"

definition LOCALHOST :: ipv4_addr where
  "LOCALHOST = Ipv4 127 0 0 1"

definition is_unspecified :: "ipv4_addr \<Rightarrow> bool" where
  "is_unspecified ip \<longleftrightarrow> ip = UNSPECIFIED"

fun is_loopback :: "ipv4_addr \<Rightarrow> bool" where
  "is_loopback (Ipv4 a b c d) = (a = 127)"

fun is_link_local :: "ipv4_addr \<Rightarrow> bool" where
  "is_link_local (Ipv4 a b c d) = (a = 169 \<and> b = 254)"

section \<open>The order on IPv4 addresses\<close>

text \<open>\<^verbatim>\<open>Ord for Ipv4Addr\<close> compares the octets from the most significant one.\<close>

fun ipv4_key :: "ipv4_addr \<Rightarrow> nat" where
  "ipv4_key (Ipv4 a b c d) = ((unat a * 256 + unat b) * 256 + unat c) * 256 + unat d"

lemma mixed_radix: "(q * 256 + r = q' * 256 + r') \<longleftrightarrow> q = q' \<and> r = r'"
  if "r < 256" "r' < 256" for q r q' r' :: nat
  using that by (metis div_mult_self3 add.commute div_less mod_mult_self3 mod_less
      add_cancel_right_right zero_neq_numeral)

lemma ipv4_key_inject: "ipv4_key x = ipv4_key y \<longleftrightarrow> x = y"
  by (cases x; cases y)
     (simp only: ipv4_key.simps mixed_radix [OF unat_u8_less unat_u8_less] ipv4_addr.inject
        word_unat_eq_iff conj_assoc)

instantiation ipv4_addr :: linorder
begin

definition less_eq_ipv4_addr :: "ipv4_addr \<Rightarrow> ipv4_addr \<Rightarrow> bool" where
  "less_eq_ipv4_addr x y \<longleftrightarrow> ipv4_key x \<le> ipv4_key y"

definition less_ipv4_addr :: "ipv4_addr \<Rightarrow> ipv4_addr \<Rightarrow> bool" where
  "less_ipv4_addr x y \<longleftrightarrow> ipv4_key x < ipv4_key y"

instance
  by standard (auto simp: less_eq_ipv4_addr_def less_ipv4_addr_def ipv4_key_inject)

end

section \<open>Text forms\<close>

text \<open>\<^verbatim>\<open>Display for Ipv4Addr\<close>.\<close>

fun show_ipv4 :: "ipv4_addr \<Rightarrow> ustr" where
  "show_ipv4 (Ipv4 a b c d) =
     show_word a @ lit ''.'' @ show_word b @ lit ''.'' @ show_word c @ lit ''.'' @ show_word d"

text \<open>
  The parser of \<^verbatim>\<open>core::net\<close>, as functions from the input to the value read and the
  rest of the input. A number has at most \<open>max_digits\<close> digits and, unless allowed, no
  superfluous leading zero.
\<close>

definition to_digit :: "nat \<Rightarrow> uchar \<Rightarrow> nat option" where
  "to_digit radix c =
     (let d = (if 48 \<le> c \<and> c \<le> 57 then Some (c - 48)
               else if 97 \<le> c \<and> c \<le> 102 then Some (c - 87)
               else if 65 \<le> c \<and> c \<le> 70 then Some (c - 55) else None)
      in case d of Some n \<Rightarrow> if n < radix then Some n else None | None \<Rightarrow> None)"

definition digits_value :: "nat \<Rightarrow> ustr \<Rightarrow> nat" where
  "digits_value radix ds =
     foldl (\<lambda>v c. v * radix + (case to_digit radix c of Some d \<Rightarrow> d | None \<Rightarrow> 0)) 0 ds"

definition read_number :: "nat \<Rightarrow> nat \<Rightarrow> bool \<Rightarrow> nat \<Rightarrow> ustr \<Rightarrow> (nat \<times> ustr) option" where
  "read_number radix max_digits allow_zero_prefix mx s =
     (let ds = takeWhile (\<lambda>c. to_digit radix c \<noteq> None) s in
      if max_digits < length ds then None
      else if ds = [] then None
      else if \<not> allow_zero_prefix \<and> hd s = 48 \<and> 1 < length ds then None
      else if mx < digits_value radix ds then None
      else Some (digits_value radix ds, drop (length ds) s))"

definition read_given_char :: "uchar \<Rightarrow> ustr \<Rightarrow> ustr option" where
  "read_given_char c s = (case s of [] \<Rightarrow> None | x # xs \<Rightarrow> if x = c then Some xs else None)"

definition read_separator ::
  "uchar \<Rightarrow> nat \<Rightarrow> (ustr \<Rightarrow> ('a \<times> ustr) option) \<Rightarrow> ustr \<Rightarrow> ('a \<times> ustr) option" where
  "read_separator sep i inner s =
     (if 0 < i then (case read_given_char sep s of None \<Rightarrow> None | Some r \<Rightarrow> inner r)
      else inner s)"

fun read_octets :: "nat \<Rightarrow> nat \<Rightarrow> ustr \<Rightarrow> (u8 list \<times> ustr) option" where
  "read_octets 0 i s = Some ([], s)"
| "read_octets (Suc k) i s =
     (case read_separator (ch CHR ''.'') i (read_number 10 3 False 255) s of
        None \<Rightarrow> None
      | Some (v, r) \<Rightarrow> map_option (\<lambda>(os, r'). (of_nat v # os, r')) (read_octets k (Suc i) r))"

definition read_ipv4_addr :: "ustr \<Rightarrow> (ipv4_addr \<times> ustr) option" where
  "read_ipv4_addr s =
     (case read_octets 4 0 s of
        Some ([a, b, c, d], r) \<Rightarrow> Some (Ipv4 a b c d, r)
      | _ \<Rightarrow> None)"

text \<open>
  Up to \<open>k\<close> further groups from position \<open>i\<close>; the flag says that an embedded IPv4
  address ended the run.
\<close>

fun read_groups :: "nat \<Rightarrow> nat \<Rightarrow> ustr \<Rightarrow> u16 list \<times> bool \<times> ustr" where
  "read_groups 0 i s = ([], False, s)"
| "read_groups (Suc k) i s =
     (case (if 0 < k then read_separator (ch CHR '':'') i read_ipv4_addr s else None) of
        Some (Ipv4 a b c d, r) \<Rightarrow>
          ([of_nat (unat a * 256 + unat b), of_nat (unat c * 256 + unat d)], True, r)
      | None \<Rightarrow>
          (case read_separator (ch CHR '':'') i (read_number 16 4 True 65535) s of
             Some (g, r) \<Rightarrow>
               (case read_groups k (Suc i) r of (gs, v4, r') \<Rightarrow> (of_nat g # gs, v4, r'))
           | None \<Rightarrow> ([], False, s)))"

definition read_ipv6_addr :: "ustr \<Rightarrow> (u16 list \<times> ustr) option" where
  "read_ipv6_addr s =
     (case read_groups 8 0 s of
        (hd_gs, hd_v4, r) \<Rightarrow>
          if length hd_gs = 8 then Some (hd_gs, r)
          else if hd_v4 then None
          else
            (case read_given_char (ch CHR '':'') r of
               None \<Rightarrow> None
             | Some r1 \<Rightarrow>
                 (case read_given_char (ch CHR '':'') r1 of
                    None \<Rightarrow> None
                  | Some r2 \<Rightarrow>
                      (case read_groups (8 - (length hd_gs + 1)) 0 r2 of
                         (tl_gs, _, r3) \<Rightarrow>
                           Some (hd_gs @ replicate (8 - length hd_gs - length tl_gs) 0 @ tl_gs, r3)))))"

definition parse_all :: "(ustr \<Rightarrow> ('a \<times> ustr) option) \<Rightarrow> ustr \<Rightarrow> 'a option" where
  "parse_all p s = (case p s of Some (v, []) \<Rightarrow> Some v | _ \<Rightarrow> None)"

text \<open>\<^verbatim>\<open>FromStr for Ipv4Addr\<close> and \<^verbatim>\<open>FromStr for IpAddr\<close>.\<close>

definition parse_ipv4 :: "ustr \<Rightarrow> ipv4_addr option" where
  "parse_ipv4 s = (if 15 < length s then None else parse_all read_ipv4_addr s)"

definition parse_ip :: "ustr \<Rightarrow> ip_addr option" where
  "parse_ip =
     parse_all (\<lambda>s. case read_ipv4_addr s of
                      Some (a, r) \<Rightarrow> Some (V4 a, r)
                    | None \<Rightarrow> map_option (\<lambda>(gs, r). (V6 gs, r)) (read_ipv6_addr s))"

section \<open>Every textual IPv4 address reads back\<close>

lemma show_nat_1: "n < 10 \<Longrightarrow> show_nat n = [48 + n]"
  by (simp add: show_nat.simps)

lemma show_nat_2: "10 \<le> n \<Longrightarrow> n < 100 \<Longrightarrow> show_nat n = [48 + n div 10, 48 + n mod 10]"
  by (simp add: show_nat.simps [of n] show_nat_1)

lemma show_nat_3:
  assumes "100 \<le> n" "n < 1000"
  shows "show_nat n = [48 + n div 10 div 10, 48 + n div 10 mod 10, 48 + n mod 10]"
proof -
  have "10 \<le> n div 10" "n div 10 < 100" using assms by linarith+
  then show ?thesis using assms by (simp add: show_nat.simps [of n] show_nat_2)
qed

lemma show_nat_u8_len: "n < 256 \<Longrightarrow> length (show_nat n) \<le> 3"
  by (cases "n < 10"; cases "n < 100") (simp_all add: show_nat_1 show_nat_2 show_nat_3)

lemma show_nat_no_leading_zero:
  "n < 256 \<Longrightarrow> 1 < length (show_nat n) \<Longrightarrow> hd (show_nat n) \<noteq> 48"
proof -
  assume n: "n < 256" "1 < length (show_nat n)"
  then have "10 \<le> n" by (rule_tac ccontr) (simp add: show_nat_1)
  moreover have "0 < n div 10 div 10" if "100 \<le> n" using that by linarith
  moreover have "0 < n div 10" using \<open>10 \<le> n\<close> by linarith
  ultimately show ?thesis
    using n by (cases "n < 100") (simp_all add: show_nat_2 show_nat_3)
qed

lemma to_digit_10: "to_digit 10 c \<noteq> None \<longleftrightarrow> is_ascii_digit c"
  by (auto simp: to_digit_def is_ascii_digit_def Let_def)

lemma digits_value_snoc:
  "d < 10 \<Longrightarrow> digits_value 10 (ds @ [48 + d]) = digits_value 10 ds * 10 + d"
  by (simp add: digits_value_def to_digit_def)

lemma digits_value_show: "digits_value 10 (show_nat n) = n"
proof (induction n rule: show_nat.induct)
  case (1 n)
  show ?case
  proof (cases "n < 10")
    case True
    then show ?thesis
      by (simp add: show_nat.simps [of n] digits_value_def to_digit_def)
  next
    case False
    with 1 show ?thesis
      by (simp add: show_nat.simps [of n] digits_value_snoc)
  qed
qed

lemma takeWhile_stop: "(\<forall>x \<in> set xs. P x) \<Longrightarrow> (ys = [] \<or> \<not> P (hd ys)) \<Longrightarrow> takeWhile P (xs @ ys) = xs"
  by (cases ys) (auto simp: takeWhile_append)

lemma read_number_show:
  fixes w :: u8
  assumes "r = [] \<or> \<not> is_ascii_digit (hd r)"
  shows "read_number 10 3 False 255 (show_word w @ r) = Some (unat w, r)"
proof -
  let ?n = "unat w"
  have n: "?n < 256" by simp
  have tw: "takeWhile (\<lambda>c. to_digit 10 c \<noteq> None) (show_nat ?n @ r) = show_nat ?n"
    unfolding to_digit_10 using assms by (intro takeWhile_stop) (auto intro: show_nat_digits)
  have len: "length (show_nat ?n) \<le> 3" by (rule show_nat_u8_len [OF n])
  have zero: "\<not> (hd (show_nat ?n) = 48 \<and> 1 < length (show_nat ?n))"
    using show_nat_no_leading_zero [OF n] by blast
  have "hd (show_nat ?n @ r) = hd (show_nat ?n)" by simp
  moreover have "\<not> 255 < ?n" using n by linarith
  ultimately show ?thesis
    using tw len zero by (simp add: read_number_def show_word_def digits_value_show Let_def)
qed

lemma read_ipv4_show:
  assumes "r = [] \<or> \<not> is_ascii_digit (hd r)"
  shows "read_ipv4_addr (show_ipv4 ip @ r) = Some (ip, r)"
proof (cases ip)
  case (Ipv4 a b c d)
  have dot: "\<not> is_ascii_digit (ch CHR ''.'')" by (simp add: is_ascii_digit_def ch_def)
  have four: "read_octets 4 0 s = read_octets (Suc (Suc (Suc (Suc 0)))) 0 s" for s
    by (simp add: eval_nat_numeral del: read_octets.simps)
  show ?thesis
    using dot assms
    by (simp add: Ipv4 read_ipv4_addr_def four read_separator_def read_given_char_def lit_def
        read_number_show)
qed

end
