(* ===== verification/Conn_Io.thy ===== *)
theory Conn_Io
  imports Rust_Net "HOL-Library.Sublist"
begin

text \<open>
  The buffered connections the gateway talks over. What the peer and the network do is a script:
  chunks that arrive (of any size, so lines may be split or run together), read errors, stalls
  (nothing arrives before the timer of the current wait fires) and the end of the stream, and for
  each write whether it succeeds or fails after some bytes. On top of it,
  \<^verbatim>\<open>tokio\<close>'s \<^verbatim>\<open>take(n).read_line\<close> and \<^verbatim>\<open>write_all\<close>, and the bounded line reads of
  \<^verbatim>\<open>src/server/session.rs\<close>. Proved: what a line read consumes, that it terminates, and that it
  is bounded.
\<close>

section \<open>Connections\<close>

datatype rx_event = RxBytes bytes | RxErr io_error | RxStall

datatype write_outcome = WrOk | WrFail io_error nat

text \<open>
  \<open>buf\<close> is the unread part of the \<^verbatim>\<open>BufReader\<close>; \<open>rx\<close> what is still to arrive (its end is the
  end of the stream); \<open>tx\<close> what was written, each write with whether it went over TLS;
  \<open>secure\<close> whether the stream is \<^verbatim>\<open>BackendStream::Tls\<close>.
\<close>

record conn =
  buf :: bytes
  rx :: "rx_event list"
  tx :: "(bool \<times> bytes) list"
  wr :: "write_outcome list"
  secure :: bool

definition new_conn :: "rx_event list \<Rightarrow> write_outcome list \<Rightarrow> conn" where
  "new_conn events outcomes =
     \<lparr>buf = [], rx = events, tx = [], wr = outcomes, secure = False\<rparr>"

definition write_all :: "bytes \<Rightarrow> conn \<Rightarrow> unit io_result \<times> conn" where
  "write_all bs c =
     (case wr c of
        [] \<Rightarrow> (Inr (), c\<lparr>tx := tx c @ [(secure c, bs)]\<rparr>)
      | WrOk # w \<Rightarrow> (Inr (), c\<lparr>tx := tx c @ [(secure c, bs)], wr := w\<rparr>)
      | WrFail e k # w \<Rightarrow> (Inl e, c\<lparr>tx := tx c @ [(secure c, take k bs)], wr := w\<rparr>))"

section \<open>Reading lines\<close>

datatype 'a timed = Ready 'a | Elapsed

fun rx_size :: "rx_event \<Rightarrow> nat" where
  "rx_size (RxBytes bs) = Suc (length bs)"
| "rx_size _ = 1"

definition pending_input :: "conn \<Rightarrow> nat" where
  "pending_input c = length (buf c) + sum_list (map rx_size (rx c))"

abbreviation newline :: byte where "newline \<equiv> CHR 0x0A"

text \<open>
  The bytes up to and including the next newline, at most \<open>limit\<close> of them, and fewer at the end
  of the stream. A buffered byte is used before anything is read from the stream.
\<close>

function read_until :: "nat \<Rightarrow> bytes \<Rightarrow> conn \<Rightarrow> bytes io_result timed \<times> conn" where
  "read_until limit acc c =
     (if limit = 0 then (Ready (Inr acc), c)
      else case buf c of
             b # bs \<Rightarrow>
               if b = newline then (Ready (Inr (acc @ [b])), c\<lparr>buf := bs\<rparr>)
               else read_until (limit - 1) (acc @ [b]) (c\<lparr>buf := bs\<rparr>)
           | [] \<Rightarrow>
               (case rx c of
                  [] \<Rightarrow> (Ready (Inr acc), c)
                | RxBytes bs # events \<Rightarrow> read_until limit acc (c\<lparr>buf := bs, rx := events\<rparr>)
                | RxErr e # events \<Rightarrow> (Ready (Inl e), c\<lparr>rx := events\<rparr>)
                | RxStall # events \<Rightarrow> (Elapsed, c\<lparr>rx := events\<rparr>)))"
  by pat_completeness auto
termination
  by (relation "measure (\<lambda>(limit, acc, c). pending_input c)") (auto simp: pending_input_def)

declare read_until.simps [simp del]

text \<open>
  \<^verbatim>\<open>take(limit).read_line(&mut line)\<close> on an empty \<^verbatim>\<open>line\<close>: the number of bytes read and the
  line, or \<^verbatim>\<open>InvalidData\<close> if they are not UTF-8.
\<close>

definition read_line :: "nat \<Rightarrow> conn \<Rightarrow> (nat \<times> ustr) io_result timed \<times> conn" where
  "read_line limit c =
     (case read_until limit [] c of
        (Ready (Inr bs), c') \<Rightarrow>
          (case utf8_decode bs of
             Some s \<Rightarrow> (Ready (Inr (length bs, s)), c')
           | None \<Rightarrow> (Ready (Inl InvalidData), c'))
      | (Ready (Inl e), c') \<Rightarrow> (Ready (Inl e), c')
      | (Elapsed, c') \<Rightarrow> (Elapsed, c'))"

definition read_line_bounded :: "usize \<Rightarrow> conn \<Rightarrow> (nat \<times> ustr) io_result timed \<times> conn" where
  "read_line_bounded max_bytes c =
     (case read_line (unat max_bytes) c of
        (Ready (Inr (n, line)), c') \<Rightarrow>
          if n = unat max_bytes \<and> \<not> ends_with_char line 10 then (Ready (Inl InvalidData), c')
          else (Ready (Inr (n, line)), c')
      | other \<Rightarrow> other)"

text \<open>The timer is an input of the wait: it fires when the script has a stall.\<close>

definition read_line_with_timeout :: "usize \<Rightarrow> conn \<Rightarrow> (nat \<times> ustr) io_result \<times> conn" where
  "read_line_with_timeout max_bytes c =
     (case read_line_bounded max_bytes c of
        (Ready r, c') \<Rightarrow> (r, c')
      | (Elapsed, c') \<Rightarrow> (Inl TimedOut, c'))"

section \<open>Frames\<close>

text \<open>Reading leaves what was written alone and only consumes input.\<close>

definition reads :: "conn \<Rightarrow> conn \<Rightarrow> bool" where
  "reads c c' \<longleftrightarrow> tx c' = tx c \<and> wr c' = wr c \<and> secure c' = secure c \<and>
     pending_input c' \<le> pending_input c"

lemma reads_refl [simp]: "reads c c"
  by (simp add: reads_def)

lemma reads_trans: "reads a b \<Longrightarrow> reads b c \<Longrightarrow> reads a c"
  by (simp add: reads_def)

lemma read_until_reads: "reads c (snd (read_until limit acc c))"
proof (induction limit acc c rule: read_until.induct)
  case (1 limit acc c)
  show ?case
  proof (cases "limit = 0")
    case True
    then show ?thesis by (simp add: read_until.simps)
  next
    case False
    show ?thesis
    proof (cases "buf c")
      case (Cons b bs)
      then have step: "reads c (c\<lparr>buf := bs\<rparr>)" by (simp add: reads_def pending_input_def)
      then show ?thesis
        using "1.IH"(2) [OF False Cons] False Cons
        by (subst read_until.simps) (auto intro: reads_trans)
    next
      case Nil
      show ?thesis
      proof (cases "rx c")
        case rx_Nil: Nil
        then show ?thesis using False Nil by (subst read_until.simps) simp
      next
        case (Cons ev events)
        show ?thesis
        proof (cases ev)
          case (RxBytes bs)
          then have "reads c (c\<lparr>buf := bs, rx := events\<rparr>)"
            using Cons Nil by (simp add: reads_def pending_input_def)
          then show ?thesis
            using "1.IH"(1) [OF False Nil Cons RxBytes] False Nil Cons RxBytes
            by (subst read_until.simps) (auto intro: reads_trans)
        qed (use False Nil Cons in \<open>subst read_until.simps, simp add: reads_def pending_input_def\<close>)+
      qed
    qed
  qed
qed

lemma read_line_reads: "reads c (snd (read_line limit c))"
  using read_until_reads [of c limit "[]"]
  by (auto simp: read_line_def split: prod.splits timed.splits sum.splits option.splits)

lemma read_line_bounded_reads: "read_line_bounded m c = (r, c') \<Longrightarrow> reads c c'"
  using read_line_reads [of c "unat m"]
  by (auto simp: read_line_bounded_def split: prod.splits timed.splits sum.splits if_splits)

lemma read_line_with_timeout_reads: "read_line_with_timeout m c = (r, c') \<Longrightarrow> reads c c'"
  using read_line_bounded_reads
  by (fastforce simp: read_line_with_timeout_def split: prod.splits timed.splits)

section \<open>What a line read returns\<close>

text \<open>The line at the head of a byte stream: through the first newline, at most \<open>limit\<close> bytes.\<close>

fun line_of :: "nat \<Rightarrow> bytes \<Rightarrow> bytes" where
  "line_of 0 s = []"
| "line_of (Suc n) [] = []"
| "line_of (Suc n) (b # s) = (if b = newline then [b] else b # line_of n s)"

lemmas line_of_numeral [simp] =
  line_of.simps(2) [of "pred_numeral k" for k, folded numeral_eq_Suc]
  line_of.simps(3) [of "pred_numeral k" for k, folded numeral_eq_Suc]

text \<open>The bytes a connection delivers before the first error or stall.\<close>

fun chunks :: "rx_event list \<Rightarrow> bytes" where
  "chunks (RxBytes bs # events) = bs @ chunks events"
| "chunks _ = []"

definition unread :: "conn \<Rightarrow> bytes" where
  "unread c = buf c @ chunks (rx c)"

lemma line_of_prefix: "line_of n s = take (length (line_of n s)) s"
  by (induction n s rule: line_of.induct) auto

lemma line_of_length: "length (line_of n s) \<le> n"
  by (induction n s rule: line_of.induct) auto

lemma line_of_newline: "newline \<notin> set (butlast (line_of n s))"
  by (induction n s rule: line_of.induct) auto

text \<open>A read that delivers bytes delivers the head line of the stream, however it was chunked.\<close>

lemma read_until_line:
  "read_until limit acc c = (Ready (Inr bs), c') \<Longrightarrow>
     bs = acc @ line_of limit (unread c) \<and> unread c = line_of limit (unread c) @ unread c'
     \<and> pending_input c' + length bs \<le> pending_input c + length acc"
proof (induction limit acc c arbitrary: bs c' rule: read_until.induct)
  case (1 limit acc c)
  show ?case
  proof (cases "limit = 0")
    case True
    with "1.prems" show ?thesis by (simp add: read_until.simps)
  next
    case False
    then obtain n where n: "limit = Suc n" by (cases limit) auto
    show ?thesis
    proof (cases "buf c")
      case (Cons b rest)
      then show ?thesis
        using "1.IH"(2) [OF False Cons] "1.prems" False n
        by (subst (asm) read_until.simps)
          (auto simp: unread_def pending_input_def split: if_splits)
    next
      case Nil
      show ?thesis
      proof (cases "rx c")
        case rx_Nil: Nil
        then show ?thesis
          using "1.prems" False Nil n by (subst (asm) read_until.simps) (auto simp: unread_def)
      next
        case (Cons ev events)
        show ?thesis
        proof (cases ev)
          case (RxBytes ch)
          then show ?thesis
            using "1.IH"(1) [OF False Nil Cons RxBytes] "1.prems" False Nil Cons
            by (subst (asm) read_until.simps) (auto simp: unread_def pending_input_def)
        qed (use "1.prems" False Nil Cons in \<open>subst (asm) read_until.simps, simp\<close>)+
      qed
    qed
  qed
qed

text \<open>On a connection with no error and no stall ahead, a line read always delivers.\<close>

fun all_bytes :: "rx_event list \<Rightarrow> bool" where
  "all_bytes (RxBytes _ # events) = all_bytes events"
| "all_bytes [] = True"
| "all_bytes _ = False"

lemma read_until_delivers:
  "all_bytes (rx c) \<Longrightarrow> \<exists>bs c'. read_until limit acc c = (Ready (Inr bs), c') \<and> all_bytes (rx c')"
proof (induction limit acc c rule: read_until.induct)
  case (1 limit acc c)
  show ?case
  proof (cases "limit = 0")
    case True
    with "1.prems" show ?thesis by (simp add: read_until.simps)
  next
    case False
    show ?thesis
    proof (cases "buf c")
      case (Cons b rest)
      then show ?thesis
        using "1.IH"(2) [OF False Cons] "1.prems" False by (subst read_until.simps) auto
    next
      case Nil
      show ?thesis
      proof (cases "rx c")
        case rx_Nil: Nil
        then show ?thesis using False Nil by (subst read_until.simps) simp
      next
        case (Cons ev events)
        with "1.prems" obtain ch where "ev = RxBytes ch" and "all_bytes events" by (cases ev) auto
        then show ?thesis
          using "1.IH"(1) [OF False Nil Cons] False Nil Cons by (subst read_until.simps) auto
      qed
    qed
  qed
qed

lemma read_line_Ok:
  assumes "read_line limit c = (Ready (Inr (n, line)), c')"
  shows "utf8_encode line = line_of limit (unread c)" and "n = length (line_of limit (unread c))"
    and "unread c = line_of limit (unread c) @ unread c'" and "pending_input c' + n \<le> pending_input c"
proof -
  from assms obtain bs where r: "read_until limit [] c = (Ready (Inr bs), c')"
    and d: "utf8_decode bs = Some line" and n: "n = length bs"
    by (auto simp: read_line_def split: prod.splits timed.splits sum.splits option.splits)
  note l = read_until_line [OF r]
  show "utf8_encode line = line_of limit (unread c)" using utf8_encode_decode [OF d] l by simp
  show "n = length (line_of limit (unread c))" using n l by simp
  show "unread c = line_of limit (unread c) @ unread c'" using l by blast
  show "pending_input c' + n \<le> pending_input c"
    using conjunct2 [OF conjunct2 [OF l]] unfolding n by simp
qed

text \<open>A complete line of text: scalar values, one newline, at its end.\<close>

definition is_line :: "ustr \<Rightarrow> bool" where
  "is_line l \<longleftrightarrow> list_all is_scalar l \<and> l \<noteq> [] \<and> last l = 10 \<and> 10 \<notin> set (butlast l)"

lemma line_nonempty: "is_line l \<Longrightarrow> utf8_encode l \<noteq> []"
  by (metis append_butlast_last_id append_is_Nil_conv is_line_def not_Cons_self2
      utf8_encode_append utf8_encode_newline)

lemma line_of_line:
  "newline \<notin> set xs \<Longrightarrow> length xs < n \<Longrightarrow> line_of n (xs @ newline # rest) = xs @ [newline]"
  by (induction n "xs @ newline # rest" arbitrary: xs rule: line_of.induct) (auto simp: Cons_eq_append_conv)

lemma read_line_is_line:
  assumes l: "is_line l" and u: "unread c = utf8_encode l @ rest" and a: "all_bytes (rx c)"
    and len: "length (utf8_encode l) \<le> limit"
  shows "\<exists>c'. read_line limit c = (Ready (Inr (length (utf8_encode l), l)), c') \<and> unread c' = rest
    \<and> all_bytes (rx c')"
proof -
  obtain bs c' where r: "read_until limit [] c = (Ready (Inr bs), c')" and a': "all_bytes (rx c')"
    using read_until_delivers [OF a] by blast
  let ?xs = "utf8_encode (butlast l)"
  have "l = butlast l @ [10]" using l by (metis append_butlast_last_id is_line_def)
  then have e: "utf8_encode l = ?xs @ [newline]"
    by (metis utf8_encode_append utf8_encode_newline)
  have "list_all is_scalar (butlast l)"
    using l by (auto simp: is_line_def list_all_iff dest: in_set_butlastD)
  then have "newline \<notin> set ?xs" using l newline_in_utf8_encode by (simp add: is_line_def)
  then have "line_of limit (unread c) = utf8_encode l"
    using line_of_line [of ?xs limit rest] u e len by simp
  with read_until_line [OF r] u have "bs = utf8_encode l" and "unread c' = rest" by simp_all
  moreover have "utf8_decode (utf8_encode l) = Some l"
    using l by (simp add: utf8_decode_encode is_line_def)
  ultimately show ?thesis using r a' by (simp add: read_line_def)
qed

text \<open>C33: however the network splits or joins the bytes a peer sends, a bounded line read on a
  connection that neither fails nor stalls returns exactly the peer's next line (through its
  newline, or the final unterminated rest), leaves exactly the remaining bytes, and never takes in
  more than the limit: a line that reaches the limit without a newline, or that is not UTF-8, is
  refused as invalid data.\<close>

theorem line_read_ignores_chunking:
  assumes "all_bytes (rx c)"
  shows "\<exists>c'. unread c = line_of (unat m) (unread c) @ unread c'
    \<and> length (line_of (unat m) (unread c)) \<le> unat m
    \<and> read_line_bounded m c =
        (case utf8_decode (line_of (unat m) (unread c)) of
           None \<Rightarrow> (Ready (Inl InvalidData), c')
         | Some line \<Rightarrow>
             if length (line_of (unat m) (unread c)) = unat m \<and> \<not> ends_with_char line 10
             then (Ready (Inl InvalidData), c')
             else (Ready (Inr (length (line_of (unat m) (unread c)), line)), c'))"
proof -
  obtain bs c' where r: "read_until (unat m) [] c = (Ready (Inr bs), c')"
    using read_until_delivers [OF assms] by blast
  from read_until_line [OF r] have "bs = line_of (unat m) (unread c)"
    and s: "unread c = line_of (unat m) (unread c) @ unread c'" by auto
  then have "read_line_bounded m c =
      (case utf8_decode (line_of (unat m) (unread c)) of
         None \<Rightarrow> (Ready (Inl InvalidData), c')
       | Some line \<Rightarrow>
           if length (line_of (unat m) (unread c)) = unat m \<and> \<not> ends_with_char line 10
           then (Ready (Inl InvalidData), c')
           else (Ready (Inr (length (line_of (unat m) (unread c)), line)), c'))"
    using r by (simp add: read_line_bounded_def read_line_def split: option.splits)
  with s line_of_length show ?thesis by blast
qed

theorem line_read_ignores_chunking_witness:
  "all_bytes [RxBytes ''QU'', RxBytes ''IT'', RxBytes [newline, CHR ''x'']] \<and>
   fst (read_line_bounded 64 (new_conn [RxBytes ''QU'', RxBytes ''IT'', RxBytes [newline, CHR ''x'']] [])) =
     Ready (Inr (5, lit ''QUIT'' @ [10]))"
proof -
  let ?c = "new_conn [RxBytes ''QU'', RxBytes ''IT'', RxBytes [newline, CHR ''x'']] []"
  have a: "all_bytes (rx ?c)" by (simp add: new_conn_def)
  have l: "line_of (unat (64 :: usize)) (unread ?c) = [CHR ''Q'', CHR ''U'', CHR ''I'', CHR ''T'', newline]"
    by (simp add: new_conn_def unread_def)
  have "utf8_decode [CHR ''Q'', CHR ''U'', CHR ''I'', CHR ''T'', newline] = Some (lit ''QUIT'' @ [10])"
    by (simp add: utf8_decode_def lit_def ch_def)
  with line_read_ignores_chunking [OF a, of 64] a show ?thesis
    unfolding l by (auto simp: new_conn_def ends_with_char_def)
qed

end
