(* ===== verification/Dns_Cache.thy ===== *)
theory Dns_Cache
  imports Rust_Net
begin

text \<open>
  \<^verbatim>\<open>src/backend/dns_cache.rs\<close>: the resolver cache. The system resolver's answer is an input of
  an operation, and so are the two instants it reads the clock at (before the cache is
  consulted, after the resolver answered). Proved: what \<^verbatim>\<open>resolve\<close> answers is always a
  resolver's answer for the same host and port, at most thirty seconds old; errors are reported
  and never cached; distinct endpoints never share an entry.
\<close>

section \<open>Time\<close>

text \<open>\<^verbatim>\<open>Instant\<close> and \<^verbatim>\<open>Duration\<close> in nanoseconds; \<^verbatim>\<open>elapsed\<close> saturates at zero.\<close>

type_synonym instant = nat
type_synonym duration = nat

definition from_secs :: "u64 \<Rightarrow> duration" where
  "from_secs s = unat s * 1000000000"

definition elapsed :: "instant \<Rightarrow> instant \<Rightarrow> duration" where
  "elapsed now earlier = now - earlier"

section \<open>The cache\<close>

definition DNS_CACHE_TTL :: duration where
  "DNS_CACHE_TTL = from_secs 30"

record cache_entry =
  entry_addrs :: "socket_addr list"
  resolved_at :: instant

type_synonym dns_cache = "ustr \<rightharpoonup> cache_entry"

definition new_dns_cache :: dns_cache where
  "new_dns_cache = Map.empty"

definition host_key :: "ustr \<Rightarrow> u16 \<Rightarrow> ustr" where
  "host_key host port = host @ ch CHR '':'' # show_word port"

definition cached :: "instant \<Rightarrow> dns_cache \<Rightarrow> ustr \<Rightarrow> socket_addr list option" where
  "cached now c key =
     (case c key of
        None \<Rightarrow> None
      | Some entry \<Rightarrow>
          if elapsed now (resolved_at entry) < DNS_CACHE_TTL then Some (entry_addrs entry) else None)"

text \<open>\<open>answer\<close> is what \<^verbatim>\<open>tokio::net::lookup_host((host, port))\<close> yields, if it is asked.\<close>

definition resolve ::
  "instant \<Rightarrow> instant \<Rightarrow> socket_addr list io_result \<Rightarrow> ustr \<Rightarrow> u16 \<Rightarrow> dns_cache
    \<Rightarrow> socket_addr list io_result \<times> dns_cache" where
  "resolve now done_at answer host port c =
     (let key = host_key host port in
      case cached now c key of
        Some addrs \<Rightarrow> (Inr addrs, c)
      | None \<Rightarrow>
          (case answer of
             Inl e \<Rightarrow> (Inl e, c)
           | Inr addrs \<Rightarrow> (Inr addrs, c(key \<mapsto> \<lparr>entry_addrs = addrs, resolved_at = done_at\<rparr>))))"

section \<open>Histories\<close>

record dns_request =
  rq_host :: ustr
  rq_port :: u16
  rq_now :: instant
  rq_answer :: "socket_addr list io_result"
  rq_done :: instant

definition dns_serve :: "dns_cache \<Rightarrow> dns_request \<Rightarrow> dns_cache" where
  "dns_serve c q = snd (resolve (rq_now q) (rq_done q) (rq_answer q) (rq_host q) (rq_port q) c)"

lemma host_key_inject: "host_key h p = host_key h' p' \<longleftrightarrow> h = h' \<and> p = p'"
proof
  assume eq: "host_key h p = host_key h' p'"
  have "ch CHR '':'' \<notin> set (show_word w)" for w :: u16
    by (simp add: show_word_def) (simp add: is_ascii_digit_def ch_def)
  then have "rsplit_once (ch CHR '':'') (host_key a b) = Some (a, show_word b)" for a and b :: u16
    by (simp add: host_key_def rsplit_once_Some)
  from this [of h p] this [of h' p'] eq have "h = h'" and s: "show_word p = show_word p'" by simp_all
  moreover have "p = p'" using s parse_u16_show by (metis option.inject)
  ultimately show "h = h' \<and> p = p'" by simp
qed simp

text \<open>Each entry is the answer some earlier request got from the resolver, at the recorded time.\<close>

definition backed :: "dns_request list \<Rightarrow> dns_cache \<Rightarrow> bool" where
  "backed qs c \<longleftrightarrow>
     (\<forall>h p e. c (host_key h p) = Some e \<longrightarrow>
        (\<exists>q \<in> set qs. rq_host q = h \<and> rq_port q = p \<and> rq_answer q = Inr (entry_addrs e) \<and>
           rq_done q = resolved_at e))"

lemma dns_serve_backed: "backed qs c \<Longrightarrow> backed (qs @ [q]) (dns_serve c q)"
  by (auto simp: backed_def dns_serve_def resolve_def Let_def host_key_inject
      split: option.splits sum.splits if_splits)

lemma dns_history_backed: "backed qs (foldl dns_serve new_dns_cache qs)"
  by (induction qs rule: rev_induct) (auto simp: dns_serve_backed, simp add: backed_def new_dns_cache_def)

text \<open>C35: after any history of requests, the addresses given for a host and port are either
  what the resolver answers to this very request or what it answered to an earlier request for
  the same host and port less than thirty seconds ago; and a resolver error is passed on without
  touching the cache.\<close>

theorem resolved_addresses_are_fresh:
  assumes "resolve now done_at answer host port (foldl dns_serve new_dns_cache qs) = (result, c')"
  shows "case result of
      Inr addrs \<Rightarrow> answer = Inr addrs \<or>
        (\<exists>q \<in> set qs. rq_host q = host \<and> rq_port q = port \<and> rq_answer q = Inr addrs
           \<and> elapsed now (rq_done q) < 30 * 1000000000)
    | Inl e \<Rightarrow> answer = Inl e \<and> c' = foldl dns_serve new_dns_cache qs"
  using assms dns_history_backed [of qs]
  by (fastforce simp: resolve_def cached_def backed_def Let_def DNS_CACHE_TTL_def from_secs_def
      split: option.splits sum.splits if_splits)

theorem resolved_addresses_are_fresh_witness:
  "resolve 5 6 (Inl TimedOut) [] 21 (foldl dns_serve new_dns_cache
      [\<lparr>rq_host = [], rq_port = 21, rq_now = 0, rq_answer = Inr [], rq_done = 1\<rparr>]) =
     (Inr [], [host_key [] 21 \<mapsto> \<lparr>entry_addrs = [], resolved_at = 1\<rparr>])
   \<and> elapsed 5 1 < 30 * 1000000000"
proof -
  let ?q = "\<lparr>rq_host = [], rq_port = 21, rq_now = 0, rq_answer = Inr [], rq_done = 1\<rparr>"
  have r: "resolve 5 6 (Inl TimedOut) [] 21 (foldl dns_serve new_dns_cache [?q]) =
     (Inr [], [host_key [] 21 \<mapsto> \<lparr>entry_addrs = [], resolved_at = 1\<rparr>])"
    by (simp add: resolve_def cached_def dns_serve_def new_dns_cache_def elapsed_def
        DNS_CACHE_TTL_def from_secs_def Let_def)
  show ?thesis using resolved_addresses_are_fresh [OF r] r by simp
qed

end
