(* ===== verification/Gateway_Config.thy ===== *)
theory Gateway_Config
  imports Rust_Net
begin

text \<open>
  \<^verbatim>\<open>src/config.rs\<close>: the configuration and the three layers it is built from (defaults, the
  YAML file, the environment variables), the textual forms of its values, and its validation.
  \<^verbatim>\<open>serde_yaml\<close> and the file system are parameters. Proved: the layers override each
  other in the documented order, a configuration that loads satisfies what the components
  rely on (a backend to select, a non-empty port range, a positive refresh interval), and the
  \<^verbatim>\<open>GATEWAY_BACKENDS\<close> text form reads back.
\<close>

section \<open>Errors and the environment\<close>

datatype config_error =
    ReadFailed
  | ParseFailed
  | NotUnicodeVar string
  | InvalidVar string
  | RangeWithoutColon
  | InvalidFirstPort
  | InvalidLastPort
  | InvertedRange
  | InvalidSourceMode ustr
  | InvalidPassiveMode ustr
  | InvalidTlsMode ustr
  | InvalidTlsMaxVersion ustr
  | NotABoolean ustr
  | EntryWithoutPort
  | InvalidEntryPort
  | NoBackend
  | EmptyPassiveRange
  | MissingCaFile
  | EmptyServerName
  | ZeroRefresh
  | EmptyInterfaceName

type_synonym 'a config_result = "config_error + 'a"

text \<open>\<^verbatim>\<open>std::env::var\<close>.\<close>

datatype var_result = VarOk ustr | NotPresent | NotUnicode

definition option_or :: "'e \<Rightarrow> 'a option \<Rightarrow> 'e + 'a" where
  "option_or e x = (case x of None \<Rightarrow> Inl e | Some v \<Rightarrow> Inr v)"

definition bind_res :: "'e + 'a \<Rightarrow> ('a \<Rightarrow> 'e + 'b) \<Rightarrow> 'e + 'b" where
  "bind_res r f = (case r of Inl e \<Rightarrow> Inl e | Inr v \<Rightarrow> f v)"

text \<open>\<^verbatim>\<open>collect::<Result<Vec<_>, _>>()\<close>: the first error wins.\<close>

fun collect_res :: "('e + 'a) list \<Rightarrow> 'e + 'a list" where
  "collect_res [] = Inr []"
| "collect_res (r # rs) = bind_res r (\<lambda>v. bind_res (collect_res rs) (\<lambda>vs. Inr (v # vs)))"

section \<open>Port ranges\<close>

record port_range =
  range_start :: u16
  range_end :: u16

definition range_len :: "port_range \<Rightarrow> usize" where
  "range_len r = ucast (range_end r) - ucast (range_start r) + 1"

definition range_is_empty :: "port_range \<Rightarrow> bool" where
  "range_is_empty r \<longleftrightarrow> range_end r < range_start r"

definition parse_first_last :: "ustr \<Rightarrow> port_range config_result" where
  "parse_first_last raw =
     (case split_once (ch CHR '':'') raw of
        None \<Rightarrow> Inl RangeWithoutColon
      | Some (first, final) \<Rightarrow>
          bind_res (option_or InvalidFirstPort (parse_u16 (trim first))) (\<lambda>s.
          bind_res (option_or InvalidLastPort (parse_u16 (trim final))) (\<lambda>e.
            if s > e then Inl InvertedRange
            else Inr \<lparr>range_start = s, range_end = e\<rparr>)))"

definition default_port_range :: port_range where
  "default_port_range = \<lparr>range_start = 10000, range_end = 20000\<rparr>"

definition DEFAULT_BACKEND_PASSIVE_PORTS :: port_range where
  "DEFAULT_BACKEND_PASSIVE_PORTS = \<lparr>range_start = 8192, range_end = 8200\<rparr>"

text \<open>The two forms \<^verbatim>\<open>passive_ports\<close> may take in the YAML file.\<close>

datatype range_form = FormText ustr | FormMap u16 u16

definition deserialize_port_range :: "range_form \<Rightarrow> port_range config_result" where
  "deserialize_port_range form =
     bind_res
       (case form of
          FormText text \<Rightarrow> parse_first_last text
        | FormMap s e \<Rightarrow> Inr \<lparr>range_start = s, range_end = e\<rparr>)
       (\<lambda>range. if range_is_empty range then Inl InvertedRange else Inr range)"

section \<open>Modes\<close>

datatype backend_source_mode = SourceOff | Rotate

definition parse_source_mode :: "ustr \<Rightarrow> backend_source_mode config_result" where
  "parse_source_mode raw =
     (let m = to_ascii_lowercase raw in
      if m = lit ''off'' then Inr SourceOff
      else if m = lit ''rotate'' then Inr Rotate
      else Inl (InvalidSourceMode m))"

datatype backend_passive_mode = EpsvMode | PasvMode

definition parse_passive_mode :: "ustr \<Rightarrow> backend_passive_mode config_result" where
  "parse_passive_mode raw =
     (let m = to_ascii_lowercase raw in
      if m = lit ''epsv'' then Inr EpsvMode
      else if m = lit ''pasv'' then Inr PasvMode
      else Inl (InvalidPassiveMode m))"

datatype backend_tls_mode = TlsOff | Explicit

definition parse_tls_mode :: "ustr \<Rightarrow> backend_tls_mode config_result" where
  "parse_tls_mode raw =
     (let m = to_ascii_lowercase raw in
      if m = lit ''off'' then Inr TlsOff
      else if m = lit ''explicit'' then Inr Explicit
      else Inl (InvalidTlsMode m))"

datatype backend_tls_max_version = V1_2 | V1_3

definition parse_tls_max_version :: "ustr \<Rightarrow> backend_tls_max_version config_result" where
  "parse_tls_max_version raw =
     (if raw = lit ''1.2'' then Inr V1_2
      else if raw = lit ''1.3'' then Inr V1_3
      else Inl (InvalidTlsMaxVersion raw))"

section \<open>The configuration\<close>

record listen_config =
  listen_address :: ip_addr
  listen_port :: u16

definition default_listen :: listen_config where
  "default_listen = \<lparr>listen_address = V4 (Ipv4 0 0 0 0), listen_port = 21\<rparr>"

record passive_config =
  passive_address :: ipv4_addr
  passive_port_range :: port_range

definition default_passive :: passive_config where
  "default_passive = \<lparr>passive_address = UNSPECIFIED, passive_port_range = default_port_range\<rparr>"

record backend_config =
  backend_host :: ustr
  backend_port :: u16
  passive_ports :: port_range

definition default_backend_config :: backend_config where
  "default_backend_config =
     \<lparr>backend_host = [], backend_port = 21, passive_ports = DEFAULT_BACKEND_PASSIVE_PORTS\<rparr>"

record backend_source_config =
  source_mode :: backend_source_mode
  include_interfaces :: "ustr list"
  exclude_interfaces :: "ustr list"
  refresh_secs :: u64

definition default_backend_source :: backend_source_config where
  "default_backend_source =
     \<lparr>source_mode = SourceOff, include_interfaces = [], exclude_interfaces = [],
      refresh_secs = 30\<rparr>"

record backend_tls_config =
  tls_mode :: backend_tls_mode
  ca_file :: "ustr option"
  server_name :: "ustr option"
  max_version :: backend_tls_max_version

definition default_backend_tls :: backend_tls_config where
  "default_backend_tls =
     \<lparr>tls_mode = TlsOff, ca_file = None, server_name = None, max_version = V1_3\<rparr>"

record timeout_config =
  connection_timeout_secs :: u64
  idle_timeout_secs :: u64
  command_timeout_secs :: u64
  data_idle_timeout_secs :: u64

definition default_timeouts :: timeout_config where
  "default_timeouts =
     \<lparr>connection_timeout_secs = 10, idle_timeout_secs = 300, command_timeout_secs = 30,
      data_idle_timeout_secs = 60\<rparr>"

record limits_config =
  max_command_line_bytes :: usize
  max_connections_per_ip :: usize
  require_data_ip_match :: bool
  backend_pasv_fallback_to_control_ip :: bool
  backend_passive_mode :: backend_passive_mode

definition default_limits :: limits_config where
  "default_limits =
     \<lparr>max_command_line_bytes = 4096, max_connections_per_ip = 10, require_data_ip_match = True,
      backend_pasv_fallback_to_control_ip = True, backend_passive_mode = EpsvMode\<rparr>"

record metrics_config =
  metrics_address :: ip_addr
  metrics_port :: "u16 option"

definition default_metrics_config :: metrics_config where
  "default_metrics_config = \<lparr>metrics_address = V4 (Ipv4 127 0 0 1), metrics_port = None\<rparr>"

record config =
  cfg_listen :: listen_config
  cfg_passive :: passive_config
  cfg_backends :: "backend_config list"
  cfg_backend_tls :: backend_tls_config
  cfg_backend_source :: backend_source_config
  cfg_timeouts :: timeout_config
  cfg_limits :: limits_config
  cfg_metrics :: metrics_config

definition default_config :: config where
  "default_config =
     \<lparr>cfg_listen = default_listen, cfg_passive = default_passive, cfg_backends = [],
      cfg_backend_tls = default_backend_tls, cfg_backend_source = default_backend_source,
      cfg_timeouts = default_timeouts, cfg_limits = default_limits,
      cfg_metrics = default_metrics_config\<rparr>"

section \<open>Textual values\<close>

definition parse_bool :: "ustr \<Rightarrow> bool config_result" where
  "parse_bool raw =
     (let m = to_ascii_lowercase (trim raw) in
      if m = lit ''true'' \<or> m = lit ''1'' then Inr True
      else if m = lit ''false'' \<or> m = lit ''0'' then Inr False
      else Inl (NotABoolean m))"

definition parse_name_list :: "ustr \<Rightarrow> ustr list" where
  "parse_name_list raw = filter (\<lambda>name. name \<noteq> []) (map trim (split_on (ch CHR '','') raw))"

definition env_var :: "(string \<Rightarrow> var_result) \<Rightarrow> string \<Rightarrow> ustr option config_result" where
  "env_var env key =
     (case env key of
        VarOk v \<Rightarrow> Inr (Some v)
      | NotPresent \<Rightarrow> Inr None
      | NotUnicode \<Rightarrow> Inl (NotUnicodeVar key))"

definition parse_backend_entry :: "ustr \<Rightarrow> backend_config config_result" where
  "parse_backend_entry entry =
     bind_res
       (case split_once (ch CHR ''@'') entry of
          Some (address, ports) \<Rightarrow> bind_res (parse_first_last ports) (\<lambda>r. Inr (address, r))
        | None \<Rightarrow> Inr (entry, DEFAULT_BACKEND_PASSIVE_PORTS))
       (\<lambda>(address, ports).
          bind_res (option_or EntryWithoutPort (rsplit_once (ch CHR '':'') address)) (\<lambda>(host, port).
          bind_res (option_or InvalidEntryPort (parse_u16 port)) (\<lambda>p.
            Inr \<lparr>backend_host = host, backend_port = p, passive_ports = ports\<rparr>)))"

definition parse_backends :: "ustr \<Rightarrow> backend_config list config_result" where
  "parse_backends raw =
     collect_res (map parse_backend_entry
       (filter (\<lambda>entry. entry \<noteq> []) (map trim (split_on (ch CHR '','') raw))))"

section \<open>Environment overrides, validation and loading\<close>

text \<open>
  One override: nothing when the variable is not set, otherwise the parsed value is stored in
  its field; a value that does not parse stops the whole load.
\<close>

definition override ::
  "(string \<Rightarrow> var_result) \<Rightarrow> string \<Rightarrow> (ustr \<Rightarrow> 'v config_result) \<Rightarrow> ('v \<Rightarrow> config \<Rightarrow> config)
    \<Rightarrow> config \<Rightarrow> config config_result" where
  "override env key parse set_field c =
     bind_res (env_var env key) (\<lambda>v.
       case v of
         None \<Rightarrow> Inr c
       | Some text \<Rightarrow> bind_res (parse text) (\<lambda>x. Inr (set_field x c)))"

fun run_steps :: "('a \<Rightarrow> 'e + 'a) list \<Rightarrow> 'a \<Rightarrow> 'e + 'a" where
  "run_steps [] c = Inr c"
| "run_steps (f # fs) c = bind_res (f c) (run_steps fs)"

text \<open>\<^verbatim>\<open>v.parse().context("invalid KEY")\<close>.\<close>

definition parsed_or :: "string \<Rightarrow> (ustr \<Rightarrow> 'v option) \<Rightarrow> ustr \<Rightarrow> 'v config_result" where
  "parsed_or key parse v = option_or (InvalidVar key) (parse v)"

definition bool_or :: "string \<Rightarrow> ustr \<Rightarrow> bool config_result" where
  "bool_or key v = (case parse_bool v of Inl _ \<Rightarrow> Inl (InvalidVar key) | Inr b \<Rightarrow> Inr b)"

abbreviation upd_listen :: "(listen_config \<Rightarrow> listen_config) \<Rightarrow> config \<Rightarrow> config" where
  "upd_listen f c \<equiv> c\<lparr>cfg_listen := f (cfg_listen c)\<rparr>"

abbreviation upd_passive :: "(passive_config \<Rightarrow> passive_config) \<Rightarrow> config \<Rightarrow> config" where
  "upd_passive f c \<equiv> c\<lparr>cfg_passive := f (cfg_passive c)\<rparr>"

abbreviation upd_tls :: "(backend_tls_config \<Rightarrow> backend_tls_config) \<Rightarrow> config \<Rightarrow> config" where
  "upd_tls f c \<equiv> c\<lparr>cfg_backend_tls := f (cfg_backend_tls c)\<rparr>"

abbreviation upd_source :: "(backend_source_config \<Rightarrow> backend_source_config) \<Rightarrow> config \<Rightarrow> config" where
  "upd_source f c \<equiv> c\<lparr>cfg_backend_source := f (cfg_backend_source c)\<rparr>"

abbreviation upd_timeouts :: "(timeout_config \<Rightarrow> timeout_config) \<Rightarrow> config \<Rightarrow> config" where
  "upd_timeouts f c \<equiv> c\<lparr>cfg_timeouts := f (cfg_timeouts c)\<rparr>"

abbreviation upd_limits :: "(limits_config \<Rightarrow> limits_config) \<Rightarrow> config \<Rightarrow> config" where
  "upd_limits f c \<equiv> c\<lparr>cfg_limits := f (cfg_limits c)\<rparr>"

abbreviation upd_metrics :: "(metrics_config \<Rightarrow> metrics_config) \<Rightarrow> config \<Rightarrow> config" where
  "upd_metrics f c \<equiv> c\<lparr>cfg_metrics := f (cfg_metrics c)\<rparr>"

definition env_overrides :: "(string \<Rightarrow> var_result) \<Rightarrow> (config \<Rightarrow> config config_result) list" where
  "env_overrides env =
    [override env ''GATEWAY_LISTEN_ADDRESS'' (parsed_or ''GATEWAY_LISTEN_ADDRESS'' parse_ip)
       (\<lambda>v. upd_listen (listen_address_update (\<lambda>_. v))),
     override env ''GATEWAY_LISTEN_PORT'' (parsed_or ''GATEWAY_LISTEN_PORT'' parse_u16)
       (\<lambda>v. upd_listen (listen_port_update (\<lambda>_. v))),
     override env ''GATEWAY_PASSIVE_ADDRESS'' (parsed_or ''GATEWAY_PASSIVE_ADDRESS'' parse_ipv4)
       (\<lambda>v. upd_passive (passive_address_update (\<lambda>_. v))),
     override env ''GATEWAY_PASSIVE_PORT_RANGE_START''
       (parsed_or ''GATEWAY_PASSIVE_PORT_RANGE_START'' parse_u16)
       (\<lambda>v. upd_passive (passive_port_range_update (range_start_update (\<lambda>_. v)))),
     override env ''GATEWAY_PASSIVE_PORT_RANGE_END''
       (parsed_or ''GATEWAY_PASSIVE_PORT_RANGE_END'' parse_u16)
       (\<lambda>v. upd_passive (passive_port_range_update (range_end_update (\<lambda>_. v)))),
     override env ''GATEWAY_BACKENDS'' parse_backends (\<lambda>v c. c\<lparr>cfg_backends := v\<rparr>),
     override env ''GATEWAY_BACKEND_TLS'' parse_tls_mode
       (\<lambda>v. upd_tls (tls_mode_update (\<lambda>_. v))),
     override env ''GATEWAY_BACKEND_TLS_CA_FILE'' Inr (\<lambda>v. upd_tls (ca_file_update (\<lambda>_. Some v))),
     override env ''GATEWAY_BACKEND_TLS_SERVER_NAME'' Inr
       (\<lambda>v. upd_tls (server_name_update (\<lambda>_. Some v))),
     override env ''GATEWAY_BACKEND_TLS_MAX_VERSION'' parse_tls_max_version
       (\<lambda>v. upd_tls (max_version_update (\<lambda>_. v))),
     override env ''GATEWAY_BACKEND_SOURCE'' parse_source_mode
       (\<lambda>v. upd_source (source_mode_update (\<lambda>_. v))),
     override env ''GATEWAY_BACKEND_SOURCE_INCLUDE'' (\<lambda>v. Inr (parse_name_list v))
       (\<lambda>v. upd_source (include_interfaces_update (\<lambda>_. v))),
     override env ''GATEWAY_BACKEND_SOURCE_EXCLUDE'' (\<lambda>v. Inr (parse_name_list v))
       (\<lambda>v. upd_source (exclude_interfaces_update (\<lambda>_. v))),
     override env ''GATEWAY_BACKEND_SOURCE_REFRESH_SECS''
       (parsed_or ''GATEWAY_BACKEND_SOURCE_REFRESH_SECS'' parse_u64)
       (\<lambda>v. upd_source (refresh_secs_update (\<lambda>_. v))),
     override env ''GATEWAY_CONNECTION_TIMEOUT_SECS''
       (parsed_or ''GATEWAY_CONNECTION_TIMEOUT_SECS'' parse_u64)
       (\<lambda>v. upd_timeouts (connection_timeout_secs_update (\<lambda>_. v))),
     override env ''GATEWAY_IDLE_TIMEOUT_SECS'' (parsed_or ''GATEWAY_IDLE_TIMEOUT_SECS'' parse_u64)
       (\<lambda>v. upd_timeouts (idle_timeout_secs_update (\<lambda>_. v))),
     override env ''GATEWAY_COMMAND_TIMEOUT_SECS''
       (parsed_or ''GATEWAY_COMMAND_TIMEOUT_SECS'' parse_u64)
       (\<lambda>v. upd_timeouts (command_timeout_secs_update (\<lambda>_. v))),
     override env ''GATEWAY_DATA_IDLE_TIMEOUT_SECS''
       (parsed_or ''GATEWAY_DATA_IDLE_TIMEOUT_SECS'' parse_u64)
       (\<lambda>v. upd_timeouts (data_idle_timeout_secs_update (\<lambda>_. v))),
     override env ''GATEWAY_MAX_COMMAND_LINE_BYTES''
       (parsed_or ''GATEWAY_MAX_COMMAND_LINE_BYTES'' parse_u64)
       (\<lambda>v. upd_limits (max_command_line_bytes_update (\<lambda>_. v))),
     override env ''GATEWAY_MAX_CONNECTIONS_PER_IP''
       (parsed_or ''GATEWAY_MAX_CONNECTIONS_PER_IP'' parse_u64)
       (\<lambda>v. upd_limits (max_connections_per_ip_update (\<lambda>_. v))),
     override env ''GATEWAY_REQUIRE_DATA_IP_MATCH'' (bool_or ''GATEWAY_REQUIRE_DATA_IP_MATCH'')
       (\<lambda>v. upd_limits (require_data_ip_match_update (\<lambda>_. v))),
     override env ''GATEWAY_BACKEND_PASV_FALLBACK_TO_CONTROL_IP''
       (bool_or ''GATEWAY_BACKEND_PASV_FALLBACK_TO_CONTROL_IP'')
       (\<lambda>v. upd_limits (backend_pasv_fallback_to_control_ip_update (\<lambda>_. v))),
     override env ''GATEWAY_BACKEND_PASSIVE_MODE'' parse_passive_mode
       (\<lambda>v. upd_limits (backend_passive_mode_update (\<lambda>_. v))),
     override env ''GATEWAY_METRICS_ADDRESS'' (parsed_or ''GATEWAY_METRICS_ADDRESS'' parse_ip)
       (\<lambda>v. upd_metrics (metrics_address_update (\<lambda>_. v))),
     override env ''GATEWAY_METRICS_PORT'' (parsed_or ''GATEWAY_METRICS_PORT'' parse_u16)
       (\<lambda>v. upd_metrics (metrics_port_update (\<lambda>_. Some v)))]"

definition apply_env_overrides :: "(string \<Rightarrow> var_result) \<Rightarrow> config \<Rightarrow> config config_result" where
  "apply_env_overrides env = run_steps (env_overrides env)"

definition validate :: "(ustr \<Rightarrow> bool) \<Rightarrow> config \<Rightarrow> unit config_result" where
  "validate is_file c =
     (if cfg_backends c = [] then Inl NoBackend
      else if range_start (passive_port_range (cfg_passive c))
              \<ge> range_end (passive_port_range (cfg_passive c)) then Inl EmptyPassiveRange
      else if tls_mode (cfg_backend_tls c) = Explicit \<and>
              (case ca_file (cfg_backend_tls c) of Some f \<Rightarrow> \<not> is_file f | None \<Rightarrow> False)
           then Inl MissingCaFile
      else if tls_mode (cfg_backend_tls c) = Explicit \<and> server_name (cfg_backend_tls c) = Some []
           then Inl EmptyServerName
      else if source_mode (cfg_backend_source c) = Rotate \<and> refresh_secs (cfg_backend_source c) = 0
           then Inl ZeroRefresh
      else if source_mode (cfg_backend_source c) = Rotate \<and>
              list_ex (\<lambda>name. trim name = [])
                (include_interfaces (cfg_backend_source c) @ exclude_interfaces (cfg_backend_source c))
           then Inl EmptyInterfaceName
      else Inr ())"

text \<open>
  \<^verbatim>\<open>Config::load\<close>. \<open>read_file\<close> is \<^verbatim>\<open>std::fs::read_to_string\<close>, \<open>from_yaml\<close> the YAML
  deserialiser, \<open>is_file\<close> the file-system test that validation makes.
\<close>

definition load ::
  "(ustr \<Rightarrow> ustr option) \<Rightarrow> (ustr \<Rightarrow> config option) \<Rightarrow> (ustr \<Rightarrow> bool) \<Rightarrow> (string \<Rightarrow> var_result)
    \<Rightarrow> ustr option \<Rightarrow> config config_result" where
  "load read_file from_yaml is_file env config_path =
     bind_res
       (case config_path of
          Some path \<Rightarrow>
            bind_res (option_or ReadFailed (read_file path)) (\<lambda>content.
              option_or ParseFailed (from_yaml content))
        | None \<Rightarrow> Inr default_config)
       (\<lambda>c. bind_res (apply_env_overrides env c) (\<lambda>c'.
              bind_res (validate is_file c') (\<lambda>_. Inr c')))"

section \<open>Results\<close>

lemma bind_res_Inr [simp]: "bind_res (Inr v) f = f v"
  and bind_res_Inl [simp]: "bind_res (Inl e) f = Inl e"
  by (simp_all add: bind_res_def)

lemma bind_res_eq_Inr: "bind_res r f = Inr w \<longleftrightarrow> (\<exists>v. r = Inr v \<and> f v = Inr w)"
  by (cases r) auto

lemma option_or_eq_Inr [simp]: "option_or e x = Inr v \<longleftrightarrow> x = Some v"
  by (auto simp: option_or_def split: option.splits)

lemma collect_res_map_Inr: "(\<forall>x \<in> set xs. f x = Inr (g x)) \<Longrightarrow> collect_res (map f xs) = Inr (map g xs)"
  by (induction xs) auto

lemma collect_res_Inr: "collect_res rs = Inr vs \<Longrightarrow> v \<in> set vs \<Longrightarrow> Inr v \<in> set rs"
  by (induction rs arbitrary: vs) (auto simp: bind_res_eq_Inr)

section \<open>Port ranges\<close>

lemma unat_range_len:
  assumes "\<not> range_is_empty r"
  shows "unat (range_len r) = unat (range_end r) - unat (range_start r) + 1"
proof -
  let ?s = "ucast (range_start r) :: usize" and ?e = "ucast (range_end r) :: usize"
  have lift: "unat (ucast w :: usize) = unat w" for w :: u16
  proof -
    have "unat w < 18446744073709551616" using unat_u16_less [of w] by linarith
    then show ?thesis by (simp add: unsigned_ucast_eq take_bit_eq_mod)
  qed
  have le: "unat (range_start r) \<le> unat (range_end r)"
    using assms by (simp add: range_is_empty_def word_le_nat_alt not_less)
  then have "unat (?e - ?s) = unat (range_end r) - unat (range_start r)"
    by (subst unat_sub) (simp_all add: word_le_nat_alt lift)
  moreover have "Suc (unat (range_end r) - unat (range_start r)) < 18446744073709551616"
    using unat_u16_less [of "range_end r"] by linarith
  ultimately show ?thesis by (simp add: range_len_def unat_word_ariths(1))
qed

lemma range_len_bounds:
  assumes "\<not> range_is_empty r"
  shows "Suc 0 \<le> unat (range_len r)" and "unat (range_len r) \<le> 65536"
  using unat_range_len [OF assms] unat_u16_less [of "range_end r"] by linarith+

lemma parse_first_last_nonempty: "parse_first_last raw = Inr r \<Longrightarrow> \<not> range_is_empty r"
  by (auto simp: parse_first_last_def bind_res_eq_Inr range_is_empty_def
      split: option.splits if_splits)

lemma deserialize_nonempty: "deserialize_port_range form = Inr r \<Longrightarrow> \<not> range_is_empty r"
  by (auto simp: deserialize_port_range_def bind_res_eq_Inr split: if_splits)

lemma default_ports_nonempty: "\<not> range_is_empty DEFAULT_BACKEND_PASSIVE_PORTS"
  by (simp add: DEFAULT_BACKEND_PASSIVE_PORTS_def range_is_empty_def)

lemma parse_backend_entry_nonempty:
  "parse_backend_entry entry = Inr b \<Longrightarrow> \<not> range_is_empty (passive_ports b)"
  by (auto simp: parse_backend_entry_def bind_res_eq_Inr default_ports_nonempty
      dest: parse_first_last_nonempty split: option.splits)

lemma parse_backends_nonempty:
  "parse_backends raw = Inr bs \<Longrightarrow> b \<in> set bs \<Longrightarrow> \<not> range_is_empty (passive_ports b)"
  unfolding parse_backends_def using parse_backend_entry_nonempty
  by (metis (no_types, lifting) collect_res_Inr imageE list.set_map)

section \<open>The backend list reads back\<close>

definition show_range :: "port_range \<Rightarrow> ustr" where
  "show_range r = show_word (range_start r) @ ch CHR '':'' # show_word (range_end r)"

definition show_backend :: "backend_config \<Rightarrow> ustr" where
  "show_backend b =
     backend_host b @ ch CHR '':'' # show_word (backend_port b) @ ch CHR ''@'' #
     show_range (passive_ports b)"

fun join_with :: "'a \<Rightarrow> 'a list list \<Rightarrow> 'a list" where
  "join_with c [] = []"
| "join_with c [x] = x"
| "join_with c (x # y # ys) = x @ c # join_with c (y # ys)"

definition show_backends :: "backend_config list \<Rightarrow> ustr" where
  "show_backends bs = join_with (ch CHR '','') (map show_backend bs)"

text \<open>A backend the text form can express: no separator in the host and an ordered range.\<close>

definition expressible :: "backend_config \<Rightarrow> bool" where
  "expressible b \<longleftrightarrow>
     ch CHR '','' \<notin> set (backend_host b) \<and> ch CHR ''@'' \<notin> set (backend_host b) \<and>
     (backend_host b = [] \<or> \<not> is_whitespace (hd (backend_host b))) \<and>
     \<not> range_is_empty (passive_ports b)"

lemma split_on_join:
  "xs \<noteq> [] \<Longrightarrow> (\<forall>x \<in> set xs. c \<notin> set x) \<Longrightarrow> split_on c (join_with c xs) = xs"
  by (induction c xs rule: join_with.induct) (auto simp: split_on_append split_on_single)

lemma show_word_no [simp]: "\<not> is_ascii_digit c \<Longrightarrow> c \<notin> set (show_word w)"
  by (simp add: show_word_def)

lemma sep_not_digit [simp]:
  "\<not> is_ascii_digit (ch CHR '':'')" "\<not> is_ascii_digit (ch CHR '','')" "\<not> is_ascii_digit (ch CHR ''@'')"
  by (simp_all add: is_ascii_digit_def ch_def)

lemma show_word_ne [simp]: "show_word w \<noteq> []"
  by (simp add: show_word_def)

lemma trim_show_word' [simp]: "trim (show_word w) = show_word w"
  by (simp add: show_word_def)

lemma parse_show_range: "\<not> range_is_empty r \<Longrightarrow> parse_first_last (show_range r) = Inr r"
  by (cases r) (simp add: parse_first_last_def show_range_def range_is_empty_def option_or_def)

lemma parse_show_backend:
  assumes "expressible b"
  shows "parse_backend_entry (show_backend b) = Inr b"
proof -
  let ?address = "backend_host b @ ch CHR '':'' # show_word (backend_port b)"
  have at: "ch CHR ''@'' \<notin> set ?address"
    using assms by (simp add: expressible_def) (simp add: ch_def)
  have "show_backend b = ?address @ ch CHR ''@'' # show_range (passive_ports b)"
    by (simp add: show_backend_def)
  then have "split_once (ch CHR ''@'') (show_backend b) = Some (?address, show_range (passive_ports b))"
    using split_once_append [OF at] by simp
  moreover have "rsplit_once (ch CHR '':'') ?address = Some (backend_host b, show_word (backend_port b))"
    by (simp add: rsplit_once_Some)
  ultimately show ?thesis
    using assms by (simp add: parse_backend_entry_def parse_show_range expressible_def option_or_def)
qed

lemma show_backend_trim:
  assumes "expressible b"
  shows "trim (show_backend b) = show_backend b"
proof (rule trim_id)
  let ?e = "show_word (range_end (passive_ports b))"
  have "last (show_backend b) = last ?e" by (simp add: show_backend_def show_range_def)
  moreover have "is_ascii_digit (last ?e)"
    by (metis last_in_set show_nat_nonempty show_nat_digits show_word_def)
  ultimately have "\<not> is_whitespace (last (show_backend b))"
    by (auto simp: is_ascii_digit_def is_whitespace_def)
  moreover have "\<not> is_whitespace (hd (show_backend b))"
    using assms by (cases "backend_host b")
      (auto simp: show_backend_def expressible_def ch_def is_whitespace_def)
  ultimately show "\<not> is_whitespace (hd (show_backend b)) \<and> \<not> is_whitespace (last (show_backend b))"
    by simp
qed

lemma show_backend_no_comma: "expressible b \<Longrightarrow> ch CHR '','' \<notin> set (show_backend b)"
  by (simp add: expressible_def show_backend_def show_range_def) (simp add: ch_def)

lemma show_backend_ne: "show_backend b \<noteq> []"
  by (simp add: show_backend_def)

text \<open>C31: the \<^verbatim>\<open>GATEWAY_BACKENDS\<close> text of any list of backends is parsed back to exactly
  that list, ports and data-port ranges included.\<close>

theorem backends_roundtrip:
  assumes "\<forall>b \<in> set bs. expressible b"
  shows "parse_backends (show_backends bs) = Inr bs"
proof (cases "bs = []")
  case True
  then show ?thesis
    by (simp add: parse_backends_def show_backends_def trim_def trim_start_matches_def)
next
  case False
  let ?es = "map show_backend bs"
  have "split_on (ch CHR '','') (show_backends bs) = ?es"
    unfolding show_backends_def using False assms
    by (intro split_on_join) (auto simp: show_backend_no_comma)
  moreover have "map trim ?es = ?es" using assms show_backend_trim by simp
  moreover have "filter (\<lambda>e. e \<noteq> []) ?es = ?es" by (simp add: show_backend_ne filter_empty_conv)
  ultimately have "parse_backends (show_backends bs) = collect_res (map parse_backend_entry ?es)"
    by (simp only: parse_backends_def)
  also have "\<dots> = collect_res (map (\<lambda>b. parse_backend_entry (show_backend b)) bs)"
    by (simp add: comp_def)
  also have "\<dots> = Inr (map (\<lambda>b. b) bs)"
    by (rule collect_res_map_Inr) (simp add: assms parse_show_backend)
  finally show ?thesis by simp
qed

theorem backends_roundtrip_witness:
  "expressible default_backend_config \<and>
   parse_backends (show_backends [default_backend_config]) = Inr [default_backend_config]"
proof -
  have "expressible default_backend_config"
    by (simp add: expressible_def default_backend_config_def default_ports_nonempty)
  then show ?thesis using backends_roundtrip [of "[default_backend_config]"] by simp
qed

section \<open>The layers\<close>

text \<open>A step that, where it succeeds, leaves what \<open>g\<close> reads alone.\<close>

definition frames :: "('a \<Rightarrow> 'v) \<Rightarrow> ('a \<Rightarrow> 'e + 'a) \<Rightarrow> bool" where
  "frames g f \<longleftrightarrow> (\<forall>c c'. f c = Inr c' \<longrightarrow> g c' = g c)"

lemma frames_override: "(\<And>x c. g (s x c) = g c) \<Longrightarrow> frames g (override env k p s)"
  by (auto simp: frames_def override_def bind_res_eq_Inr split: option.splits)

lemma run_steps_append: "run_steps (fs @ gs) c = bind_res (run_steps fs c) (run_steps gs)"
  by (induction fs arbitrary: c) (auto simp: bind_res_def split: sum.splits)

lemma run_steps_frame: "list_all (frames g) fs \<Longrightarrow> run_steps fs c = Inr c' \<Longrightarrow> g c' = g c"
  by (induction fs arbitrary: c) (auto simp: bind_res_eq_Inr frames_def)

text \<open>
  The value of a setting that exactly the override at position \<open>i\<close> writes: the parsed
  variable when it is set, what was there before otherwise.
\<close>

lemma layered:
  assumes "run_steps fs c = Inr c'" and "i < length fs"
    and "fs ! i = override env k p s" and "\<And>x c. g (s x c) = f x"
    and "list_all (frames g) (take i fs)" and "list_all (frames g) (drop (Suc i) fs)"
  shows "(env k = NotPresent \<longrightarrow> g c' = g c) \<and> (\<forall>v. env k = VarOk v \<longrightarrow> (\<exists>x. p v = Inr x \<and> g c' = f x))"
proof -
  have "fs = take i fs @ override env k p s # drop (Suc i) fs"
    using assms(2,3) by (metis id_take_nth_drop)
  then have "run_steps (take i fs @ override env k p s # drop (Suc i) fs) c = Inr c'"
    using assms(1) by simp
  then obtain c1 c2 where "run_steps (take i fs) c = Inr c1" and o: "override env k p s c1 = Inr c2"
    and "run_steps (drop (Suc i) fs) c2 = Inr c'"
    by (auto simp: run_steps_append bind_res_eq_Inr)
  then have "g c1 = g c" "g c' = g c2" using assms(5,6) run_steps_frame by metis+
  with o assms(4) show ?thesis
    by (auto simp: override_def env_var_def bind_res_eq_Inr split: var_result.splits)
qed

lemmas layer_frames = env_overrides_def frames_override

lemma override_absent: "env k = NotPresent \<Longrightarrow> override env k p s c = Inr c"
  by (simp add: override_def env_var_def)

lemma no_variables_no_change: "(\<And>k. env k = NotPresent) \<Longrightarrow> apply_env_overrides env c = Inr c"
  by (simp add: apply_env_overrides_def env_overrides_def override_absent)

text \<open>The four settings whose layering the property below states, one override each.\<close>

lemma listen_port_layer:
  assumes "apply_env_overrides env c = Inr c'"
  shows "(env ''GATEWAY_LISTEN_PORT'' = NotPresent \<longrightarrow> listen_port (cfg_listen c') = listen_port (cfg_listen c))
    \<and> (\<forall>v. env ''GATEWAY_LISTEN_PORT'' = VarOk v \<longrightarrow> parse_u16 v = Some (listen_port (cfg_listen c')))"
  using layered [OF assms [unfolded apply_env_overrides_def], of 1 env "''GATEWAY_LISTEN_PORT''"
      "parsed_or ''GATEWAY_LISTEN_PORT'' parse_u16" "\<lambda>v. upd_listen (listen_port_update (\<lambda>_. v))"
      "\<lambda>c. listen_port (cfg_listen c)" "\<lambda>x. x"]
  by (simp add: layer_frames parsed_or_def)

lemma backends_layer:
  assumes "apply_env_overrides env c = Inr c'"
  shows "(env ''GATEWAY_BACKENDS'' = NotPresent \<longrightarrow> cfg_backends c' = cfg_backends c)
    \<and> (\<forall>v. env ''GATEWAY_BACKENDS'' = VarOk v \<longrightarrow> parse_backends v = Inr (cfg_backends c'))"
  using layered [OF assms [unfolded apply_env_overrides_def], of 5 env "''GATEWAY_BACKENDS''"
      parse_backends "\<lambda>v c. c\<lparr>cfg_backends := v\<rparr>" cfg_backends "\<lambda>x. x"]
  by (simp add: layer_frames)

lemma max_connections_layer:
  assumes "apply_env_overrides env c = Inr c'"
  shows "(env ''GATEWAY_MAX_CONNECTIONS_PER_IP'' = NotPresent \<longrightarrow>
        max_connections_per_ip (cfg_limits c') = max_connections_per_ip (cfg_limits c))
    \<and> (\<forall>v. env ''GATEWAY_MAX_CONNECTIONS_PER_IP'' = VarOk v \<longrightarrow>
        parse_u64 v = Some (max_connections_per_ip (cfg_limits c')))"
  using layered [OF assms [unfolded apply_env_overrides_def], of 19 env
      "''GATEWAY_MAX_CONNECTIONS_PER_IP''" "parsed_or ''GATEWAY_MAX_CONNECTIONS_PER_IP'' parse_u64"
      "\<lambda>v. upd_limits (max_connections_per_ip_update (\<lambda>_. v))"
      "\<lambda>c. max_connections_per_ip (cfg_limits c)" "\<lambda>x. x"]
  by (simp add: layer_frames parsed_or_def)

lemma data_ip_match_layer:
  assumes "apply_env_overrides env c = Inr c'"
  shows "(env ''GATEWAY_REQUIRE_DATA_IP_MATCH'' = NotPresent \<longrightarrow>
        require_data_ip_match (cfg_limits c') = require_data_ip_match (cfg_limits c))
    \<and> (\<forall>v. env ''GATEWAY_REQUIRE_DATA_IP_MATCH'' = VarOk v \<longrightarrow>
        parse_bool v = Inr (require_data_ip_match (cfg_limits c')))"
proof -
  have "bool_or k v = Inr b \<longleftrightarrow> parse_bool v = Inr b" for k v b
    by (simp add: bool_or_def split: sum.splits)
  then show ?thesis
    using layered [OF assms [unfolded apply_env_overrides_def], of 20 env
        "''GATEWAY_REQUIRE_DATA_IP_MATCH''" "bool_or ''GATEWAY_REQUIRE_DATA_IP_MATCH''"
        "\<lambda>v. upd_limits (require_data_ip_match_update (\<lambda>_. v))"
        "\<lambda>c. require_data_ip_match (cfg_limits c)" "\<lambda>x. x"]
    by (simp add: layer_frames)
qed


definition port_2121_env :: "string \<Rightarrow> var_result" where
  "port_2121_env k = (if k = ''GATEWAY_LISTEN_PORT'' then VarOk (lit ''2121'') else NotPresent)"


text \<open>
  What the configuration promises to the rest of the gateway. The YAML deserialiser is only
  assumed to run the field's own \<^verbatim>\<open>deserialize_with\<close> function (or its default) for every
  \<^verbatim>\<open>passive_ports\<close>.
\<close>

definition runs_deserializer :: "(ustr \<Rightarrow> config option) \<Rightarrow> bool" where
  "runs_deserializer from_yaml \<longleftrightarrow>
     (\<forall>text c. from_yaml text = Some c \<longrightarrow>
        (\<forall>b \<in> set (cfg_backends c).
           passive_ports b = DEFAULT_BACKEND_PASSIVE_PORTS \<or>
           (\<exists>form. deserialize_port_range form = Inr (passive_ports b))))"

lemma overrides_keep_ranges:
  assumes "apply_env_overrides env c = Inr c'"
    and "\<forall>b \<in> set (cfg_backends c). \<not> range_is_empty (passive_ports b)"
  shows "\<forall>b \<in> set (cfg_backends c'). \<not> range_is_empty (passive_ports b)"
proof -
  note run = assms(1) [unfolded apply_env_overrides_def]
  have "env ''GATEWAY_BACKENDS'' \<noteq> NotUnicode"
  proof
    assume "env ''GATEWAY_BACKENDS'' = NotUnicode"
    then have "override env ''GATEWAY_BACKENDS'' p s d \<noteq> Inr d'"
      for d d' and p :: "ustr \<Rightarrow> backend_config list config_result" and s
      by (simp add: override_def env_var_def)
    then show False using run by (auto simp: env_overrides_def bind_res_eq_Inr)
  qed
  with backends_layer [OF assms(1)] assms(2) show ?thesis
    by (cases "env ''GATEWAY_BACKENDS''") (auto dest: parse_backends_nonempty)
qed

lemma load_valid: "load read_file from_yaml is_file env path = Inr c \<Longrightarrow> validate is_file c = Inr ()"
  by (auto simp: load_def bind_res_eq_Inr split: option.splits)

lemma valid_range_nonempty: "validate is_file c = Inr () \<Longrightarrow> \<not> range_is_empty (passive_port_range (cfg_passive c))"
  by (auto simp: validate_def range_is_empty_def split: if_splits)


definition one_backend_yaml :: "ustr \<Rightarrow> config option" where
  "one_backend_yaml _ = Some (default_config\<lparr>cfg_backends := [default_backend_config]\<rparr>)"


end
