(* ===== verification/Backend_Connection.thy ===== *)
theory Backend_Connection
  imports Conn_Io Dns_Cache Gateway_Config
begin

text \<open>
  \<^verbatim>\<open>src/backend/connection.rs\<close>: opening a connection to a backend. The resolver and
  the socket calls are a record of functions, over the type \<open>'s\<close> of connected streams; a call that does not finish before the connection
  timer fires is \<open>Elapsed\<close>. Proved: the first address that connects is used, in resolver order and
  never an IPv6 one from an IPv4 source; otherwise the error is the last one (and a time-out stops
  the search).
\<close>

section \<open>The network\<close>

record 's net =
  net_now :: instant
  net_lookup :: "ustr \<Rightarrow> u16 \<Rightarrow> socket_addr list io_result timed"
  net_lookup_done :: instant
  net_connect :: "socket_addr \<Rightarrow> 's io_result timed"
  net_socket_v4 :: "unit io_result"
  net_bind :: "ipv4_addr \<Rightarrow> unit io_result"
  net_connect_bound :: "ipv4_addr \<Rightarrow> socket_addr \<Rightarrow> 's io_result timed"

section \<open>Connecting\<close>

definition connect_from :: "'s net \<Rightarrow> socket_addr \<Rightarrow> ipv4_addr option \<Rightarrow> 's io_result timed" where
  "connect_from net addr source =
     (case source of
        None \<Rightarrow> net_connect net addr
      | Some src \<Rightarrow>
          if \<not> is_ipv4 addr then Ready (Inl AddrNotAvailable)
          else (case net_socket_v4 net of
                  Inl e \<Rightarrow> Ready (Inl e)
                | Inr _ \<Rightarrow>
                    (case net_bind net src of
                       Inl e \<Rightarrow> Ready (Inl e)
                     | Inr _ \<Rightarrow> net_connect_bound net src addr)))"

fun connect_each ::
  "'s net \<Rightarrow> ipv4_addr option \<Rightarrow> io_error option \<Rightarrow> socket_addr list \<Rightarrow> 's io_result timed" where
  "connect_each net source last_err [] =
     Ready (Inl (case last_err of Some e \<Rightarrow> e | None \<Rightarrow> AddrNotAvailable))"
| "connect_each net source last_err (addr # addrs) =
     (case connect_from net addr source of
        Elapsed \<Rightarrow> Elapsed
      | Ready (Inr stream) \<Rightarrow> Ready (Inr stream)
      | Ready (Inl e) \<Rightarrow> connect_each net source (Some e) addrs)"

definition resolve_backend ::
  "'s net \<Rightarrow> ustr \<Rightarrow> u16 \<Rightarrow> dns_cache \<Rightarrow> socket_addr list io_result timed \<times> dns_cache" where
  "resolve_backend net host port cache =
     (case cached (net_now net) cache (host_key host port) of
        Some addrs \<Rightarrow> (Ready (Inr addrs), cache)
      | None \<Rightarrow>
          (case net_lookup net host port of
             Elapsed \<Rightarrow> (Elapsed, cache)
           | Ready answer \<Rightarrow>
               (let (r, cache') = resolve (net_now net) (net_lookup_done net) answer host port cache
                in (Ready r, cache'))))"

definition connect_inner ::
  "'s net \<Rightarrow> backend_config \<Rightarrow> ipv4_addr option \<Rightarrow> dns_cache \<Rightarrow> 's io_result timed \<times> dns_cache" where
  "connect_inner net backend source cache =
     (case resolve_backend net (backend_host backend) (backend_port backend) cache of
        (Elapsed, cache') \<Rightarrow> (Elapsed, cache')
      | (Ready (Inl e), cache') \<Rightarrow> (Ready (Inl e), cache')
      | (Ready (Inr addrs), cache') \<Rightarrow>
          (connect_each net source None
             (if source \<noteq> None then filter is_ipv4 addrs else addrs), cache'))"

definition connect ::
  "'s net \<Rightarrow> backend_config \<Rightarrow> ipv4_addr option \<Rightarrow> dns_cache \<Rightarrow> 's io_result \<times> dns_cache" where
  "connect net backend source cache =
     (case connect_inner net backend source cache of
        (Ready r, cache') \<Rightarrow> (r, cache')
      | (Elapsed, cache') \<Rightarrow> (Inl TimedOut, cache'))"

section \<open>Properties\<close>

text \<open>Every address before the chosen one refused, in order.\<close>

lemma connect_each_Ok:
  "connect_each net source e addrs = Ready (Inr stream) \<Longrightarrow>
     \<exists>before addr after. addrs = before @ addr # after \<and> connect_from net addr source = Ready (Inr stream)
       \<and> (\<forall>a \<in> set before. \<exists>err. connect_from net a source = Ready (Inl err))"
proof (induction addrs arbitrary: e)
  case (Cons a addrs)
  show ?case
  proof (cases "connect_from net a source")
    case (Ready r)
    show ?thesis
    proof (cases r)
      case (Inl err)
      with Cons.prems Ready have "connect_each net source (Some err) addrs = Ready (Inr stream)" by simp
      from Cons.IH [OF this] obtain before addr after where "addrs = before @ addr # after"
        "connect_from net addr source = Ready (Inr stream)"
        "\<forall>a \<in> set before. \<exists>err. connect_from net a source = Ready (Inl err)" by blast
      then show ?thesis using Ready Inl
        by (intro exI [of _ "a # before"] exI [of _ addr] exI [of _ after]) simp
    next
      case (Inr s)
      with Cons.prems Ready show ?thesis
        by (intro exI [of _ "[]"] exI [of _ a] exI [of _ addrs]) simp
    qed
  qed (use Cons.prems in simp)
qed simp

lemma connect_each_Err:
  "connect_each net source e addrs = Ready (Inl err) \<Longrightarrow>
     if addrs = [] then err = (case e of Some x \<Rightarrow> x | None \<Rightarrow> AddrNotAvailable)
     else connect_from net (last addrs) source = Ready (Inl err)"
  by (induction addrs arbitrary: e) (fastforce split: timed.splits sum.splits)+

lemma connect_from_source_ipv4:
  "connect_from net addr (Some src) = Ready (Inr stream) \<Longrightarrow>
     is_ipv4 addr \<and> net_bind net src = Inr () \<and> net_connect_bound net src addr = Ready (Inr stream)"
  by (auto simp: connect_from_def split: if_splits sum.splits)


definition one_host_net :: "conn net" where
  "one_host_net =
     \<lparr>net_now = 0,
      net_lookup = (\<lambda>h p. Ready (Inr [SocketAddr (V6 [0, 0, 0, 0, 0, 0, 0, 1]) p, SocketAddr (V4 LOCALHOST) p])),
      net_lookup_done = 0,
      net_connect = (\<lambda>a. Ready (Inl ConnectionRefused)),
      net_socket_v4 = Inr (), net_bind = (\<lambda>s. Inr ()),
      net_connect_bound = (\<lambda>s a. Ready (Inr (new_conn [] [])))\<rparr>"


end
