(* ===== verification/Backend_Tls.thy ===== *)
theory Backend_Tls
  imports Backend_Connection
begin

text \<open>
  \<^verbatim>\<open>src/backend/tls.rs\<close>: the TLS connector and the upgrade of a backend control connection to
  explicit FTPS. rustls (certificate parsing, name validation, the handshake) is a record of
  functions; a completed handshake yields what the peer sends over TLS. Proved: reply codes are
  read from single- and multi-line replies within bounds; the negotiation either fails or leaves a
  secured connection; the only bytes it ever sends in clear are those of \<^verbatim>\<open>AUTH TLS\<close>; and
  nothing that was received in clear is read as if it had come over TLS.
\<close>

section \<open>The connector\<close>

datatype tls_version = TLS12 | TLS13

type_synonym certificate = bytes

record tls_connector =
  tls_roots :: "certificate list"
  tls_versions :: "tls_version list"
  tls_store :: nat
  tls_server_name :: "ustr option"

text \<open>
  What the gateway uses of rustls: reading the certificates of a PEM file (each may be invalid),
  whether a certificate can be a root, the built-in roots, whether a name is a server name, and the
  handshake, which delivers the stream of events read over TLS.
\<close>

record rustls =
  pem_file :: "ustr \<Rightarrow> certificate option list option"
  root_usable :: "certificate \<Rightarrow> bool"
  webpki_roots :: "certificate list"
  valid_server_name :: "ustr \<Rightarrow> bool"
  handshake :: "tls_connector \<Rightarrow> ustr \<Rightarrow> rx_event list \<Rightarrow> rx_event list io_result timed"

datatype tls_setup_error = CaUnreadable | CaInvalidPem | CaUnusable | CaEmpty

fun add_roots ::
  "(certificate \<Rightarrow> bool) \<Rightarrow> certificate option list \<Rightarrow> certificate list
    \<Rightarrow> tls_setup_error + certificate list" where
  "add_roots usable [] roots = Inr roots"
| "add_roots usable (None # certs) roots = Inl CaInvalidPem"
| "add_roots usable (Some cert # certs) roots =
     (if usable cert then add_roots usable certs (roots @ [cert]) else Inl CaUnusable)"

definition new_tls_connector :: "rustls \<Rightarrow> backend_tls_config \<Rightarrow> tls_setup_error + tls_connector" where
  "new_tls_connector lib c =
     bind_res
       (case ca_file c of
          Some path \<Rightarrow>
            bind_res (option_or CaUnreadable (pem_file lib path)) (\<lambda>certs.
            bind_res (add_roots (root_usable lib) certs []) (\<lambda>roots.
              if roots = [] then Inl CaEmpty else Inr roots))
        | None \<Rightarrow> Inr (webpki_roots lib))
       (\<lambda>roots. Inr
          \<lparr>tls_roots = roots,
           tls_versions = (case max_version c of V1_2 \<Rightarrow> [TLS12] | V1_3 \<Rightarrow> [TLS13, TLS12]),
           tls_store = 0,
           tls_server_name = server_name c\<rparr>)"

text \<open>\<open>fresh\<close> names the resumption store created for the session.\<close>

definition for_session :: "nat \<Rightarrow> tls_connector \<Rightarrow> tls_connector" where
  "for_session fresh connector = connector\<lparr>tls_store := fresh\<rparr>"

definition tls_connect :: "rustls \<Rightarrow> tls_connector \<Rightarrow> ustr \<Rightarrow> conn \<Rightarrow> conn io_result timed" where
  "tls_connect lib connector host tcp =
     (let name = (case tls_server_name connector of Some n \<Rightarrow> n | None \<Rightarrow> host) in
      if \<not> valid_server_name lib name then Ready (Inl InvalidInput)
      else (case handshake lib connector name (rx tcp) of
              Elapsed \<Rightarrow> Elapsed
            | Ready (Inl e) \<Rightarrow> Ready (Inl e)
            | Ready (Inr events) \<Rightarrow> Ready (Inr (tcp\<lparr>buf := [], rx := events, secure := True\<rparr>))))"

section \<open>Replies during the negotiation\<close>

definition MAX_REPLY_LINES :: nat where
  "MAX_REPLY_LINES = 32"

definition digit_byte :: "byte \<Rightarrow> bool" where
  "digit_byte b \<longleftrightarrow> is_ascii_digit (ch b)"

definition well_formed_reply :: "ustr \<Rightarrow> bool" where
  "well_formed_reply line \<longleftrightarrow>
     (let bytes = utf8_encode line in 4 \<le> length bytes \<and> list_all digit_byte (take 3 bytes))"

fun read_reply_lines ::
  "nat \<Rightarrow> usize \<Rightarrow> ustr option \<Rightarrow> conn \<Rightarrow> ustr io_result timed \<times> conn" where
  "read_reply_lines 0 max_bytes code c = (Ready (Inl InvalidData), c)"
| "read_reply_lines (Suc k) max_bytes code c =
     (case read_line (unat max_bytes) c of
        (Elapsed, c') \<Rightarrow> (Elapsed, c')
      | (Ready (Inl e), c') \<Rightarrow> (Ready (Inl e), c')
      | (Ready (Inr (n, line)), c') \<Rightarrow>
          if n = 0 then (Ready (Inl UnexpectedEof), c')
          else if \<not> ends_with_char line 10 then (Ready (Inl InvalidData), c')
          else if \<not> well_formed_reply line then (Ready (Inl InvalidData), c')
          else (case code of
                  None \<Rightarrow>
                    if utf8_encode line ! 3 \<noteq> CHR ''-'' then (Ready (Inr (take 3 line)), c')
                    else read_reply_lines k max_bytes (Some (take 3 line)) c'
                | Some first \<Rightarrow>
                    if starts_with line first \<and> utf8_encode line ! 3 = CHR '' ''
                    then (Ready (Inr first), c')
                    else read_reply_lines k max_bytes code c'))"

definition read_reply_code :: "usize \<Rightarrow> conn \<Rightarrow> ustr io_result \<times> conn" where
  "read_reply_code max_bytes c =
     (case read_reply_lines MAX_REPLY_LINES max_bytes None c of
        (Ready r, c') \<Rightarrow> (r, c')
      | (Elapsed, c') \<Rightarrow> (Inl TimedOut, c'))"

abbreviation crlf :: ustr where "crlf \<equiv> [13, 10]"

definition command_expecting :: "string \<Rightarrow> string \<Rightarrow> usize \<Rightarrow> conn \<Rightarrow> unit io_result \<times> conn" where
  "command_expecting command expected max_bytes c =
     (case write_all (utf8_encode (lit command @ crlf)) c of
        (Inl e, c1) \<Rightarrow> (Inl e, c1)
      | (Inr _, c1) \<Rightarrow>
          (case read_reply_code max_bytes c1 of
             (Inl e, c2) \<Rightarrow> (Inl e, c2)
           | (Inr code, c2) \<Rightarrow>
               if code \<noteq> lit expected then (Inl PermissionDenied, c2) else (Inr (), c2)))"

section \<open>The upgrade\<close>

text \<open>The connection is returned in every case, for what was written on it.\<close>

definition negotiate_explicit_ftps ::
  "rustls \<Rightarrow> tls_connector \<Rightarrow> ustr \<Rightarrow> usize \<Rightarrow> conn \<Rightarrow> unit io_result \<times> conn" where
  "negotiate_explicit_ftps lib connector host max_bytes c =
     (case command_expecting ''AUTH TLS'' ''234'' max_bytes c of
        (Inl e, c1) \<Rightarrow> (Inl e, c1)
      | (Inr _, c1) \<Rightarrow>
          if buf c1 \<noteq> [] then (Inl InvalidData, c1)
          else if secure c1 then (Inl OtherError, c1)
          else (case tls_connect lib connector host c1 of
                  Elapsed \<Rightarrow> (Inl TimedOut, c1)
                | Ready (Inl e) \<Rightarrow> (Inl e, c1)
                | Ready (Inr c2) \<Rightarrow>
                    (case command_expecting ''PBSZ 0'' ''200'' max_bytes c2 of
                       (Inl e, c3) \<Rightarrow> (Inl e, c3)
                     | (Inr _, c3) \<Rightarrow> command_expecting ''PROT P'' ''200'' max_bytes c3)))"

section \<open>Frames\<close>

lemma read_reply_lines_reads: "read_reply_lines k m code c = (r, c') \<Longrightarrow> reads c c'"
proof (induction k m code c arbitrary: r c' rule: read_reply_lines.induct)
  case (2 k m code c)
  obtain q d where rl: "read_line (unat m) c = (q, d)" by fastforce
  then have d: "reads c d" using read_line_reads [of c "unat m"] by simp
  show ?case
  proof (cases "\<exists>n line. q = Ready (Inr (n, line))")
    case True
    then obtain n line where q: "q = Ready (Inr (n, line))" by blast
    with rl "2.prems" 2(1) [of _ d] 2(2) [of _ d] d show ?thesis
      by (auto split: if_splits option.splits intro: reads_trans)
  next
    case False
    with rl "2.prems" d show ?thesis by (auto split: timed.splits sum.splits)
  qed
qed simp

lemma read_reply_code_reads: "read_reply_code m c = (r, c') \<Longrightarrow> reads c c'"
  by (auto simp: read_reply_code_def split: prod.splits timed.splits dest: read_reply_lines_reads)

lemma write_all_sends:
  "write_all bs c = (r, c') \<Longrightarrow>
     (\<exists>m. tx c' = tx c @ [(secure c, m)] \<and> prefix m bs \<and> (r = Inr () \<longrightarrow> m = bs))
     \<and> secure c' = secure c \<and> buf c' = buf c \<and> rx c' = rx c"
  by (auto simp: write_all_def take_is_prefix split: list.splits write_outcome.splits)

definition command_bytes :: "string \<Rightarrow> bytes" where
  "command_bytes command = utf8_encode (lit command @ crlf)"

lemma command_expecting_sends:
  assumes "command_expecting command expected m c = (r, c')"
  shows "(\<exists>b. tx c' = tx c @ [(secure c, b)] \<and> prefix b (command_bytes command)
      \<and> (r = Inr () \<longrightarrow> b = command_bytes command)) \<and> secure c' = secure c"
proof -
  obtain w c1 where w: "write_all (utf8_encode (lit command @ crlf)) c = (w, c1)" by fastforce
  obtain q c2 where q: "read_reply_code m c1 = (q, c2)" by fastforce
  from read_reply_code_reads [OF q] write_all_sends [OF w] assms w q show ?thesis
    by (auto simp: command_expecting_def command_bytes_def reads_def split: sum.splits if_splits)
qed

lemma tls_connect_secure:
  "tls_connect lib connector host c = Ready (Inr c') \<Longrightarrow> secure c' \<and> tx c' = tx c \<and>
     (\<exists>events. handshake lib connector (case tls_server_name connector of Some n \<Rightarrow> n | None \<Rightarrow> host)
        (rx c) = Ready (Inr events) \<and> c' = c\<lparr>buf := [], rx := events, secure := True\<rparr>)"
  by (auto simp: tls_connect_def Let_def split: if_splits timed.splits sum.splits)

section \<open>The upgrade fails closed\<close>

text \<open>What the steps of the negotiation write, in the order they run.\<close>

lemma negotiate_cases:
  assumes "negotiate_explicit_ftps lib connector host m c = (r, c')"
  obtains (auth_failed) e where "command_expecting ''AUTH TLS'' ''234'' m c = (Inl e, c')" "r = Inl e"
  | (not_upgraded) "command_expecting ''AUTH TLS'' ''234'' m c = (Inr (), c')" "\<exists>e. r = Inl e"
  | (pbsz_failed) c1 c2 e where "command_expecting ''AUTH TLS'' ''234'' m c = (Inr (), c1)" "buf c1 = []"
      "tls_connect lib connector host c1 = Ready (Inr c2)"
      "command_expecting ''PBSZ 0'' ''200'' m c2 = (Inl e, c')" "r = Inl e"
  | (prot) c1 c2 c3 where "command_expecting ''AUTH TLS'' ''234'' m c = (Inr (), c1)" "buf c1 = []"
      "tls_connect lib connector host c1 = Ready (Inr c2)"
      "command_expecting ''PBSZ 0'' ''200'' m c2 = (Inr (), c3)"
      "command_expecting ''PROT P'' ''200'' m c3 = (r, c')"
proof -
  obtain a c1 where a: "command_expecting ''AUTH TLS'' ''234'' m c = (a, c1)" by fastforce
  show thesis
  proof (cases a)
    case (Inl e)
    with a assms show thesis by (intro auth_failed [of e]) (auto simp: negotiate_explicit_ftps_def)
  next
    case (Inr u)
    with a have a': "command_expecting ''AUTH TLS'' ''234'' m c = (Inr (), c1)" by simp
    show thesis
    proof (cases "\<exists>c2. buf c1 = [] \<and> \<not> secure c1 \<and> tls_connect lib connector host c1 = Ready (Inr c2)")
      case True
      then obtain c2 where t: "buf c1 = []" "\<not> secure c1" "tls_connect lib connector host c1 = Ready (Inr c2)"
        by blast
      obtain p c3 where p: "command_expecting ''PBSZ 0'' ''200'' m c2 = (p, c3)" by fastforce
      show thesis
      proof (cases p)
        case (Inl e)
        then show thesis using pbsz_failed [OF a' t(1,3)] p t a' assms
          by (auto simp: negotiate_explicit_ftps_def)
      next
        case (Inr u)
        then show thesis using prot [OF a' t(1,3)] p t a' assms
          by (simp add: negotiate_explicit_ftps_def)
      qed
    next
      case False
      then show thesis using not_upgraded a' assms
        by (auto simp: negotiate_explicit_ftps_def split: if_splits timed.splits sum.splits)
    qed
  qed
qed

text \<open>Everything sent so far in clear is (the start of) the command that asks for TLS.\<close>

definition clear_is_auth :: "(bool \<times> bytes) list \<Rightarrow> bool" where
  "clear_is_auth ms \<longleftrightarrow> (\<forall>(s, b) \<in> set ms. \<not> s \<longrightarrow> prefix b (command_bytes ''AUTH TLS''))"

lemma negotiate_sends:
  assumes "negotiate_explicit_ftps lib connector host m c = (r, c')" and "\<not> secure c"
  shows "\<exists>ms. tx c' = tx c @ ms \<and> clear_is_auth ms \<and>
    (r = Inr () \<longrightarrow> secure c' \<and> ms = [(False, command_bytes ''AUTH TLS''),
       (True, command_bytes ''PBSZ 0''), (True, command_bytes ''PROT P'')])"
  using assms(1)
proof (cases rule: negotiate_cases)
  case (auth_failed e)
  from command_expecting_sends [OF auth_failed(1)] auth_failed(2) assms(2) show ?thesis
    by (auto simp: clear_is_auth_def)
next
  case not_upgraded
  from command_expecting_sends [OF not_upgraded(1)] not_upgraded(2) assms(2) show ?thesis
    by (auto simp: clear_is_auth_def)
next
  case (pbsz_failed c1 c2 e)
  from command_expecting_sends [OF pbsz_failed(1)] tls_connect_secure [OF pbsz_failed(3)]
    command_expecting_sends [OF pbsz_failed(4)] pbsz_failed(5) assms(2) show ?thesis
    by (auto simp: clear_is_auth_def)
next
  case (prot c1 c2 c3)
  from command_expecting_sends [OF prot(1)] tls_connect_secure [OF prot(3)]
    command_expecting_sends [OF prot(4)] command_expecting_sends [OF prot(5)] assms(2) show ?thesis
    by (auto simp: clear_is_auth_def)
qed

text \<open>C11: the upgrade of a backend connection to TLS fails closed. Whatever the backend answers
  and wherever it stops, the only bytes sent in clear are those of \<^verbatim>\<open>AUTH TLS\<close>; it succeeds
  only on a connection that is then secured, after exactly \<^verbatim>\<open>AUTH TLS\<close> in clear and
  \<^verbatim>\<open>PBSZ 0\<close> and \<^verbatim>\<open>PROT P\<close> over TLS, with nothing left over that was received in clear: from the
  handshake on, everything read comes from the TLS stream.\<close>

theorem tls_upgrade_fails_closed:
  assumes "negotiate_explicit_ftps lib connector host m c = (r, c')" and "\<not> secure c"
  shows "(\<exists>ms. tx c' = tx c @ ms \<and> clear_is_auth ms \<and>
      (r = Inr () \<longrightarrow> ms = [(False, command_bytes ''AUTH TLS''),
         (True, command_bytes ''PBSZ 0''), (True, command_bytes ''PROT P'')]))
    \<and> (r = Inr () \<longrightarrow> secure c' \<and>
        (\<exists>c1 events c3. command_expecting ''AUTH TLS'' ''234'' m c = (Inr (), c1) \<and> buf c1 = []
           \<and> handshake lib connector (case tls_server_name connector of Some n \<Rightarrow> n | None \<Rightarrow> host) (rx c1)
               = Ready (Inr events)
           \<and> command_expecting ''PBSZ 0'' ''200'' m (c1\<lparr>buf := [], rx := events, secure := True\<rparr>) = (Inr (), c3)
           \<and> command_expecting ''PROT P'' ''200'' m c3 = (Inr (), c')))"
proof -
  have "\<exists>c1 events c3. command_expecting ''AUTH TLS'' ''234'' m c = (Inr (), c1) \<and> buf c1 = []
       \<and> handshake lib connector (case tls_server_name connector of Some n \<Rightarrow> n | None \<Rightarrow> host) (rx c1)
           = Ready (Inr events)
       \<and> command_expecting ''PBSZ 0'' ''200'' m (c1\<lparr>buf := [], rx := events, secure := True\<rparr>) = (Inr (), c3)
       \<and> command_expecting ''PROT P'' ''200'' m c3 = (Inr (), c')" if "r = Inr ()"
    using assms(1) that by (cases rule: negotiate_cases) (auto dest!: tls_connect_secure)
  then show ?thesis using negotiate_sends [OF assms] by blast
qed

text \<open>A backend that accepts: 234 in clear, then 200 twice over TLS.\<close>

definition accepting_tls :: rustls where
  "accepting_tls =
     \<lparr>pem_file = (\<lambda>_. None), root_usable = (\<lambda>_. True), webpki_roots = [],
      valid_server_name = (\<lambda>_. True),
      handshake = (\<lambda>_ _ _. Ready (Inr [RxBytes (''200 ok'' @ [newline]), RxBytes (''200 ok'' @ [newline])]))\<rparr>"

definition plain_connector :: tls_connector where
  "plain_connector = \<lparr>tls_roots = [], tls_versions = [TLS13, TLS12], tls_store = 0, tls_server_name = None\<rparr>"

lemmas read_reply_lines_numeral =
  read_reply_lines.simps(2) [of "pred_numeral k" for k, folded numeral_eq_Suc]

lemma accepting_negotiation:
  "negotiate_explicit_ftps accepting_tls plain_connector (lit ''h'') 64
     (new_conn [RxBytes (''234 go'' @ [newline])] []) =
   (Inr (), \<lparr>buf = [], rx = [], tx = [(False, command_bytes ''AUTH TLS''),
      (True, command_bytes ''PBSZ 0''), (True, command_bytes ''PROT P'')], wr = [], secure = True\<rparr>)"
  by (simp add: negotiate_explicit_ftps_def command_expecting_def write_all_def new_conn_def
      read_reply_code_def MAX_REPLY_LINES_def read_reply_lines_numeral read_line_def read_until.simps
      utf8_decode_def well_formed_reply_def utf8_encode_def utf8_char_def digit_byte_def
      is_ascii_digit_def ends_with_char_def lit_def ch_def tls_connect_def accepting_tls_def
      plain_connector_def command_bytes_def char_of_def bit_0)

theorem tls_upgrade_fails_closed_witness:
  "\<exists>ms. [(False, command_bytes ''AUTH TLS''), (True, command_bytes ''PBSZ 0''),
      (True, command_bytes ''PROT P'')] = ms \<and> clear_is_auth ms"
proof -
  have "\<not> secure (new_conn [RxBytes (''234 go'' @ [newline])] [])" by (simp add: new_conn_def)
  from tls_upgrade_fails_closed [OF accepting_negotiation this] show ?thesis
    by (auto simp: new_conn_def)
qed

section \<open>Replies\<close>

text \<open>
  A reply as the negotiation understands it: one line, or a first line with a hyphen after its
  code, further lines, and a last line that repeats the code before a space.
\<close>

definition closes_reply :: "ustr \<Rightarrow> ustr \<Rightarrow> bool" where
  "closes_reply code l \<longleftrightarrow> starts_with l code \<and> utf8_encode l ! 3 = CHR '' ''"

definition is_reply :: "ustr \<Rightarrow> ustr list \<Rightarrow> bool" where
  "is_reply code ls \<longleftrightarrow> ls \<noteq> [] \<and> list_all (\<lambda>l. is_line l \<and> well_formed_reply l) ls \<and>
     take 3 (hd ls) = code \<and>
     (if utf8_encode (hd ls) ! 3 = CHR ''-''
      then tl ls \<noteq> [] \<and> closes_reply code (last ls) \<and>
           list_all (\<lambda>l. \<not> closes_reply code l) (butlast (tl ls))
      else tl ls = [])"

lemma read_reply_first:
  assumes "is_line l" "well_formed_reply l" "unread c = utf8_encode l @ rest" "all_bytes (rx c)"
    and "length (utf8_encode l) \<le> unat m"
  shows "\<exists>c'. unread c' = rest \<and> all_bytes (rx c') \<and> read_reply_lines (Suc k) m code c =
    (case code of
       None \<Rightarrow> if utf8_encode l ! 3 \<noteq> CHR ''-'' then (Ready (Inr (take 3 l)), c')
               else read_reply_lines k m (Some (take 3 l)) c'
     | Some first \<Rightarrow> if closes_reply first l then (Ready (Inr first), c')
               else read_reply_lines k m code c')"
proof -
  from read_line_is_line [OF assms(1,3,4,5)] obtain c' where
    "read_line (unat m) c = (Ready (Inr (length (utf8_encode l), l)), c')"
    and "unread c' = rest" "all_bytes (rx c')" by blast
  moreover have "length (utf8_encode l) \<noteq> 0" using assms(2) by (auto simp: well_formed_reply_def Let_def)
  ultimately show ?thesis
    using assms(1,2)
    by (intro exI [of _ c']) (simp add: is_line_def ends_with_char_def closes_reply_def split: option.splits)
qed

lemma read_reply_rest:
  assumes "list_all (\<lambda>l. is_line l \<and> well_formed_reply l \<and> length (utf8_encode l) \<le> unat m) ls"
    and "ls \<noteq> []" and "length ls \<le> k"
    and "closes_reply code (last ls)" and "list_all (\<lambda>l. \<not> closes_reply code l) (butlast ls)"
    and "unread c = utf8_encode (concat ls) @ rest" and "all_bytes (rx c)"
  shows "\<exists>c'. read_reply_lines k m (Some code) c = (Ready (Inr code), c') \<and> unread c' = rest"
  using assms
proof (induction ls arbitrary: k c)
  case (Cons l ls)
  then obtain j where k: "k = Suc j" by (cases k) auto
  from Cons.prems have l: "is_line l" "well_formed_reply l" "length (utf8_encode l) \<le> unat m" by simp_all
  have "unread c = utf8_encode l @ utf8_encode (concat ls) @ rest" using Cons.prems(6) by simp
  from read_reply_first [OF l(1,2) this Cons.prems(7) l(3), of j "Some code"] obtain c' where
    c': "unread c' = utf8_encode (concat ls) @ rest" "all_bytes (rx c')"
    and r: "read_reply_lines (Suc j) m (Some code) c =
      (if closes_reply code l then (Ready (Inr code), c') else read_reply_lines j m (Some code) c')" by auto
  show ?case
  proof (cases "ls = []")
    case True
    then show ?thesis using Cons.prems(4) r k c' by (simp add: utf8_encode_def)
  next
    case False
    then have "\<not> closes_reply code l" using Cons.prems(5) by simp
    then show ?thesis using Cons.IH [of j c'] Cons.prems False r k c' by simp
  qed
qed simp

text \<open>C37: any reply of at most 32 lines, single- or multi-line, whose lines each fit the limit, is
  recognised however its bytes arrive: its code is returned and exactly its lines are
  consumed.\<close>

theorem reply_code_is_read:
  assumes "is_reply code ls" and "length ls \<le> MAX_REPLY_LINES"
    and "\<forall>l \<in> set ls. length (utf8_encode l) \<le> unat m"
    and "unread c = utf8_encode (concat ls) @ rest" and "all_bytes (rx c)"
  shows "\<exists>c'. read_reply_code m c = (Inr code, c') \<and> unread c' = rest"
proof -
  from assms(1) obtain l more where ls: "ls = l # more" by (cases ls) (auto simp: is_reply_def)
  with assms have l: "is_line l" "well_formed_reply l" "length (utf8_encode l) \<le> unat m"
    by (simp_all add: is_reply_def)
  have "unread c = utf8_encode l @ utf8_encode (concat more) @ rest" using assms(4) ls by simp
  from read_reply_first [OF l(1,2) this assms(5) l(3), of 31 None] obtain c1 where
    c1: "unread c1 = utf8_encode (concat more) @ rest" "all_bytes (rx c1)"
    and r: "read_reply_lines (Suc 31) m None c =
      (if utf8_encode l ! 3 \<noteq> CHR ''-'' then (Ready (Inr (take 3 l)), c1)
       else read_reply_lines 31 m (Some (take 3 l)) c1)" by auto
  have start: "read_reply_lines MAX_REPLY_LINES m None c = read_reply_lines (Suc 31) m None c"
    by (simp add: MAX_REPLY_LINES_def)
  show ?thesis
  proof (cases "utf8_encode l ! 3 = CHR ''-''")
    case True
    have "\<exists>c'. read_reply_lines 31 m (Some code) c1 = (Ready (Inr code), c') \<and> unread c' = rest"
      by (rule read_reply_rest [OF _ _ _ _ _ c1])
        (use assms ls True in \<open>auto simp: is_reply_def list_all_iff MAX_REPLY_LINES_def\<close>)
    then show ?thesis
      using assms(1) ls True r start by (auto simp: read_reply_code_def is_reply_def)
  next
    case False
    then have "more = []" and "code = take 3 l" using assms(1) ls by (auto simp: is_reply_def)
    with False r start c1 show ?thesis by (simp add: read_reply_code_def utf8_encode_def)
  qed
qed

theorem reply_code_is_read_witness:
  "\<exists>c'. read_reply_code 64 (new_conn [RxBytes (''234-a'' @ [newline] @ ''23''), RxBytes (''4 b'' @ [newline])] [])
     = (Inr (lit ''234''), c') \<and> unread c' = []"
proof -
  let ?ls = "[lit ''234-a'' @ [10], lit ''234 b'' @ [10]]"
  let ?c = "new_conn [RxBytes (''234-a'' @ [newline] @ ''23''), RxBytes (''4 b'' @ [newline])] []"
  have r: "is_reply (lit ''234'') ?ls"
    by (simp add: is_reply_def is_line_def well_formed_reply_def closes_reply_def lit_def ch_def
        is_scalar_def utf8_encode_def utf8_char_def digit_byte_def is_ascii_digit_def char_of_def bit_0)
  have u: "unread ?c = utf8_encode (concat ?ls) @ []"
    by (simp add: new_conn_def unread_def lit_def ch_def utf8_encode_def utf8_char_def char_of_def bit_0)
  have s: "\<forall>l \<in> set ?ls. length (utf8_encode l) \<le> unat (64 :: usize)"
    by (simp add: lit_def ch_def utf8_encode_def utf8_char_def)
  have "all_bytes (rx ?c)" by (simp add: new_conn_def)
  from reply_code_is_read [OF r _ s u this] show ?thesis by (simp add: MAX_REPLY_LINES_def)
qed

text \<open>
  A reply whose middle line does not itself start with three digits, as RFC 959 allows, is refused.
\<close>

lemma plain_middle_line_is_refused:
  "fst (read_reply_code 64 (new_conn [RxBytes (''234-a'' @ [newline] @ ''text'' @ [newline] @ ''234 b'' @ [newline])] []))
     = Inl InvalidData"
  by (simp add: new_conn_def read_reply_code_def MAX_REPLY_LINES_def read_reply_lines_numeral
      read_line_def read_until.simps utf8_decode_def well_formed_reply_def utf8_encode_def utf8_char_def
      digit_byte_def is_ascii_digit_def ends_with_char_def ch_def char_of_def bit_0)

end
