(* ===== verification/Ftp_Reply.thy ===== *)
theory Ftp_Reply
  imports Rust_Net
begin

text \<open>
  \<^verbatim>\<open>src/protocol/reply.rs\<close>: the \<^verbatim>\<open>227\<close> and \<^verbatim>\<open>229\<close> replies the gateway sends to a
  client, and the parsers it applies to a backend's replies. Proved: each parser inverts the
  matching builder (at every address and at every port but the \<^verbatim>\<open>EPSV\<close> port 0, which is
  refused), and what the parsers accept has the announced shape.
\<close>

unbundle bit_operations_syntax

section \<open>Model\<close>

fun pasv_reply :: "ipv4_addr \<Rightarrow> u16 \<Rightarrow> ustr" where
  "pasv_reply (Ipv4 o1 o2 o3 o4) port =
     (let p1 = (ucast (drop_bit 8 port) :: u8);
          p2 = (ucast (port AND 0xFF) :: u8)
      in lit ''227 Entering Passive Mode ('' @ show_word o1 @ lit '','' @ show_word o2 @ lit '','' @
         show_word o3 @ lit '','' @ show_word o4 @ lit '','' @ show_word p1 @ lit '','' @
         show_word p2 @ lit '').'' @ [13, 10])"

definition epsv_reply :: "u16 \<Rightarrow> ustr" where
  "epsv_reply port =
     lit ''229 Entering Extended Passive Mode (|||'' @ show_word port @ lit ''|).'' @ [13, 10]"

text \<open>The text between the first \<^verbatim>\<open>(\<close> and the first \<^verbatim>\<open>)\<close> after it.\<close>

definition parenthesised :: "ustr \<Rightarrow> ustr option" where
  "parenthesised line =
     (case split_once (ch CHR ''('') line of
        None \<Rightarrow> None
      | Some (_, r) \<Rightarrow> map_option fst (split_once (ch CHR '')'') r))"

definition parse_epsv_reply :: "ustr \<Rightarrow> u16 option" where
  "parse_epsv_reply line =
     (case parenthesised line of
        None \<Rightarrow> None
      | Some [] \<Rightarrow> None
      | Some (d # inner) \<Rightarrow>
          (if \<not> is_ascii_graphic d then None
           else
             (case split_on d (d # inner) of
                [f1, f2, f3, port, f5] \<Rightarrow>
                  (if f1 = [] \<and> f2 = [] \<and> f3 = [] \<and> f5 = [] then
                     (case parse_u16 port of
                        None \<Rightarrow> None
                      | Some p \<Rightarrow> (if p \<noteq> 0 then Some p else None))
                   else None)
              | _ \<Rightarrow> None)))"

definition parse_pasv_reply :: "ustr \<Rightarrow> (ipv4_addr \<times> u16) option" where
  "parse_pasv_reply line =
     (case parenthesised line of
        None \<Rightarrow> None
      | Some inner \<Rightarrow>
          (case those (map (\<lambda>part. parse_u16 (trim part)) (split_on (ch CHR '','') inner)) of
             Some [o1, o2, o3, o4, p1, p2] \<Rightarrow>
               (if list_ex (\<lambda>n. n > 255) [o1, o2, o3, o4, p1, p2] then None
                else Some (Ipv4 (ucast o1) (ucast o2) (ucast o3) (ucast o4),
                           (push_bit 8 p1) OR p2))
           | _ \<Rightarrow> None))"

section \<open>Round trips\<close>

lemma digits_no_punct [simp]:
  "40 \<notin> set (show_word w)" "41 \<notin> set (show_word w)" "44 \<notin> set (show_word w)"
  "124 \<notin> set (show_word w)"
  by (simp_all add: show_word_def is_ascii_digit_def)

lemma trim_show_word [simp]: "trim (show_word w) = show_word w"
  by (simp add: show_word_def)

lemma parse_u16_show_u8: "parse_u16 (show_word (w :: u8)) = Some (ucast w)"
proof -
  have "unat w \<le> 65535" using unat_u8_less [of w] by linarith
  then show ?thesis by (simp add: parse_u16_def show_word_def unsigned_ucast_eq)
qed

lemma parenthesised_eq:
  assumes "40 \<notin> set pre" and "41 \<notin> set inner"
  shows "parenthesised (pre @ 40 # inner @ 41 # post) = Some inner"
  using assms by (simp add: parenthesised_def ch_def)

lemma u8_as_u16_small: "\<not> (255 :: u16) < ucast (w :: u8)"
proof -
  have "unat w < 65536" using unat_u8_less [of w] by linarith
  then have "unat (ucast w :: u16) = unat w"
    by (simp add: unsigned_ucast_eq take_bit_eq_mod)
  moreover have "\<not> 255 < unat w" using unat_u8_less [of w] by linarith
  ultimately show ?thesis by (simp add: word_less_nat_alt)
qed

lemma ucast_u8_u16_u8 [simp]: "(ucast (ucast (w :: u8) :: u16) :: u8) = w"
  by (rule bit_word_eqI) (auto simp: bit_simps)

lemma port_halves:
  "push_bit 8 (ucast (ucast (drop_bit 8 p) :: u8)) OR ucast (ucast (p AND 0xFF) :: u8) = (p :: u16)"
proof -
  have "(0xFF :: u16) = mask 8" by (simp add: mask_eq_exp_minus_1)
  moreover have "push_bit 8 (ucast (ucast (drop_bit 8 p) :: u8)) OR
      ucast (ucast (p AND mask 8) :: u8) = p"
    by (rule bit_word_eqI) (auto simp: bit_simps)
  ultimately show ?thesis by simp
qed

lemma split_six:
  assumes "44 \<notin> set a" "44 \<notin> set b" "44 \<notin> set c" "44 \<notin> set d" "44 \<notin> set e" "44 \<notin> set f"
  shows "split_on 44 (a @ 44 # b @ 44 # c @ 44 # d @ 44 # e @ 44 # f) = [a, b, c, d, e, f]"
  using assms by (simp add: split_on_append split_on_single)

text \<open>C26: the gateway's own \<^verbatim>\<open>227\<close> reply, parsed back, gives the advertised address and
  port, for every address and every port.\<close>

theorem pasv_roundtrip: "parse_pasv_reply (pasv_reply ip port) = Some (ip, port)"
proof (cases ip)
  case (Ipv4 a b c d)
  define p1 p2 where "p1 = (ucast (drop_bit 8 port) :: u8)" and "p2 = (ucast (port AND 0xFF) :: u8)"
  let ?inner = "show_word a @ 44 # show_word b @ 44 # show_word c @ 44 # show_word d @ 44 #
    show_word p1 @ 44 # show_word p2"
  have "pasv_reply ip port =
      lit ''227 Entering Passive Mode '' @ 40 # ?inner @ 41 # lit ''.'' @ [13, 10]"
    by (simp add: Ipv4 p1_def p2_def lit_def ch_def)
  then have "parenthesised (pasv_reply ip port) = Some ?inner"
    by (simp only:) (rule parenthesised_eq, simp_all add: lit_def ch_def)
  moreover have "those (map (\<lambda>part. parse_u16 (trim part)) (split_on (ch CHR '','') ?inner)) =
      Some [ucast a, ucast b, ucast c, ucast d, ucast p1, ucast p2]"
    by (simp add: ch_def split_six parse_u16_show_u8)
  moreover have "push_bit 8 (ucast p1) OR ucast p2 = port"
    unfolding p1_def p2_def by (rule port_halves)
  ultimately show ?thesis
    by (simp add: parse_pasv_reply_def u8_as_u16_small Ipv4)
qed

text \<open>C27: the gateway's own \<^verbatim>\<open>229\<close> reply, parsed back, gives the port, except that port 0
  is refused.\<close>

theorem epsv_roundtrip: "parse_epsv_reply (epsv_reply port) = (if port = 0 then None else Some port)"
proof -
  have "epsv_reply port =
      lit ''229 Entering Extended Passive Mode '' @ 40 # (124 # 124 # 124 # show_word port @ [124]) @
      41 # lit ''.'' @ [13, 10]"
    by (simp add: epsv_reply_def lit_def ch_def)
  moreover have "41 \<notin> set (124 # 124 # 124 # show_word port @ [124])" by simp
  ultimately have p: "parenthesised (epsv_reply port) = Some (124 # 124 # 124 # show_word port @ [124])"
    by (simp only:) (rule parenthesised_eq, simp_all add: lit_def ch_def)
  have "split_on 124 (show_word port @ 124 # []) = [show_word port, []]"
    by (subst split_on_append) simp_all
  then show ?thesis by (simp add: parse_epsv_reply_def p is_ascii_graphic_def)
qed

text \<open>
  A reply that is accepted names its parts between parentheses, but neither parser looks at
  the three-digit code: a refusal whose text carries six numbers in parentheses is taken for
  an address.
\<close>

lemma refusal_code_is_not_checked:
  "parse_pasv_reply (lit ''425 busy (10,0,0,5,200,3)'') = Some (Ipv4 10 0 0 5, 51203)"
  by (simp add: parse_pasv_reply_def parenthesised_def lit_def ch_def parse_u16_def parse_uint_def
      is_ascii_digit_def trim_def trim_start_matches_def trim_end_matches_def is_whitespace_def
      push_bit_eq_mult)

lemma epsv_port_nonzero: "parse_epsv_reply line = Some port \<Longrightarrow> port \<noteq> 0"
  by (auto simp: parse_epsv_reply_def split: option.splits list.splits if_splits)

end
