(* ===== verification/Relay.thy ===== *)
theory Relay
  imports Backend_Tls Ftp_Reply
begin

text \<open>
  \<^verbatim>\<open>src/pasv/relay.rs\<close>: asking the backend for a data port, connecting to it, and relaying the
  bytes of a transfer. The relay is modelled in time: what a data connection delivers carries its
  arrival time and writes take time, so the idle timers are part of the model. Proved: which
  address is dialled; that an unusable control connection is always reported as such; that a
  copy that succeeds has delivered exactly the bytes it read, in order; that a transfer on which
  both sides stay within the idle time succeeds; and that the idle time of a silent backend side
  ends a transfer however active the client is.
\<close>

section \<open>Opening the data connection\<close>

datatype data_connect_error =
    ControlConnection io_error
  | UnusableReply
  | ConnectFailed io_error

fun connect_error_io :: "data_connect_error \<Rightarrow> io_error option" where
  "connect_error_io (ControlConnection e) = Some e"
| "connect_error_io UnusableReply = None"
| "connect_error_io (ConnectFailed e) = Some e"

record connect_limits =
  max_line_bytes :: usize
  fallback_to_control_ip :: bool
  passive_mode :: backend_passive_mode

definition data_ip :: "ipv4_addr \<Rightarrow> ip_addr option \<Rightarrow> bool \<Rightarrow> ipv4_addr" where
  "data_ip announced control fallback =
     (case control of
        Some (V4 c) \<Rightarrow> if fallback \<and> is_unspecified announced then c else announced
      | _ \<Rightarrow> announced)"

definition command_reply ::
  "string \<Rightarrow> connect_limits \<Rightarrow> conn \<Rightarrow> (data_connect_error + ustr) \<times> conn" where
  "command_reply command limits c =
     (case write_all (utf8_encode (lit command @ crlf)) c of
        (Inl e, c1) \<Rightarrow> (Inl (ControlConnection e), c1)
      | (Inr _, c1) \<Rightarrow>
          (case read_line (unat (max_line_bytes limits)) c1 of
             (Elapsed, c2) \<Rightarrow> (Inl (ControlConnection TimedOut), c2)
           | (Ready (Inl e), c2) \<Rightarrow> (Inl (ControlConnection e), c2)
           | (Ready (Inr (n, line)), c2) \<Rightarrow>
               if n = 0 then (Inl (ControlConnection UnexpectedEof), c2)
               else if \<not> ends_with_char line 10 then (Inl (ControlConnection InvalidData), c2)
               else (Inr line, c2)))"

text \<open>The passive command that was answered, and its reply.\<close>

definition passive_reply ::
  "connect_limits \<Rightarrow> conn \<Rightarrow> (data_connect_error + (backend_passive_mode \<times> ustr)) \<times> conn" where
  "passive_reply limits c =
     (case passive_mode limits of
        PasvMode \<Rightarrow>
          (case command_reply ''PASV'' limits c of
             (Inl e, c1) \<Rightarrow> (Inl e, c1)
           | (Inr line, c1) \<Rightarrow> (Inr (PasvMode, line), c1))
      | EpsvMode \<Rightarrow>
          (case command_reply ''EPSV'' limits c of
             (Inl e, c1) \<Rightarrow> (Inl e, c1)
           | (Inr line, c1) \<Rightarrow>
               if starts_with line (lit ''5'')
               then (case command_reply ''PASV'' limits c1 of
                       (Inl e, c2) \<Rightarrow> (Inl e, c2)
                     | (Inr line2, c2) \<Rightarrow> (Inr (PasvMode, line2), c2))
               else (Inr (EpsvMode, line), c1)))"

definition data_address ::
  "connect_limits \<Rightarrow> socket_addr option \<Rightarrow> backend_passive_mode \<Rightarrow> ustr
    \<Rightarrow> data_connect_error + socket_addr" where
  "data_address limits control_peer mode line =
     (case mode of
        EpsvMode \<Rightarrow>
          (case parse_epsv_reply line of
             None \<Rightarrow> Inl UnusableReply
           | Some port \<Rightarrow>
               (case control_peer of
                  None \<Rightarrow> Inl UnusableReply
                | Some peer \<Rightarrow> Inr (SocketAddr (sa_ip peer) port)))
      | PasvMode \<Rightarrow>
          (case parse_pasv_reply line of
             None \<Rightarrow> Inl UnusableReply
           | Some (announced, port) \<Rightarrow>
               Inr (SocketAddr (V4 (data_ip announced (map_option sa_ip control_peer)
                 (fallback_to_control_ip limits))) port)))"

definition open_backend_data_connection ::
  "'s net \<Rightarrow> ipv4_addr option \<Rightarrow> connect_limits \<Rightarrow> socket_addr option \<Rightarrow> conn
    \<Rightarrow> (data_connect_error + 's) \<times> conn" where
  "open_backend_data_connection net local_ip limits control_peer c =
     (case passive_reply limits c of
        (Inl e, c1) \<Rightarrow> (Inl e, c1)
      | (Inr (mode, line), c1) \<Rightarrow>
          (case data_address limits control_peer mode line of
             Inl e \<Rightarrow> (Inl e, c1)
           | Inr addr \<Rightarrow>
               (case connect_from net addr local_ip of
                  Ready (Inr stream) \<Rightarrow> (Inr stream, c1)
                | Ready (Inl e) \<Rightarrow> (Inl (ConnectFailed e), c1)
                | Elapsed \<Rightarrow> (Inl (ConnectFailed TimedOut), c1))))"

section \<open>Relaying\<close>

text \<open>
  What a data connection delivers, with arrival times; a read of no bytes is the end of the stream,
  and nothing after the last event ever arrives. A write takes time and may fail; with no outcome
  left in the script it succeeds at once. \<open>shutdown_result\<close> is the outcome of shutting down the
  write half.
\<close>

datatype data_event = DataBytes bytes | DataErr io_error

record data_stream =
  arrivals :: "(instant \<times> data_event) list"
  data_writes :: "(duration \<times> write_outcome) list"
  shutdown_result :: "unit io_result"

definition RELAY_BUFFER_BYTES :: nat where
  "RELAY_BUFFER_BYTES = 65536"

fun next_write :: "(duration \<times> write_outcome) list \<Rightarrow> duration \<times> write_outcome" where
  "next_write [] = (0, WrOk)"
| "next_write (w # ws) = w"

record copy_outcome =
  copied :: "nat io_result"
  finished :: instant
  delivered :: "(instant \<times> bytes) list"

fun event_size :: "instant \<times> data_event \<Rightarrow> nat" where
  "event_size (t, DataBytes bs) = Suc (length bs)"
| "event_size (t, DataErr e) = 1"

text \<open>
  The loop of \<^verbatim>\<open>copy_with_idle_timeout\<close> at time \<open>now\<close>, with its timer set to \<open>deadline\<close>. The
  \<^verbatim>\<open>select!\<close> is biased: data that is there when the timer fires is taken.
\<close>

function copy_loop ::
  "duration \<Rightarrow> unit io_result \<Rightarrow> (instant \<times> data_event) list \<Rightarrow> (duration \<times> write_outcome) list
    \<Rightarrow> instant \<Rightarrow> instant \<Rightarrow> nat \<Rightarrow> (instant \<times> bytes) list \<Rightarrow> copy_outcome" where
  "copy_loop idle shut [] ws now deadline sum_bytes out =
     \<lparr>copied = Inl TimedOut, finished = deadline, delivered = out\<rparr>"
| "copy_loop idle shut ((at, ev) # events) ws now deadline sum_bytes out =
     (let t = max now at in
      if t > deadline then \<lparr>copied = Inl TimedOut, finished = deadline, delivered = out\<rparr>
      else case ev of
             DataErr e \<Rightarrow>
               if e = UnexpectedEof
               then \<lparr>copied = (case shut of Inr _ \<Rightarrow> Inr sum_bytes | Inl x \<Rightarrow> Inl x), finished = t,
                     delivered = out\<rparr>
               else \<lparr>copied = Inl e, finished = t, delivered = out\<rparr>
           | DataBytes [] \<Rightarrow>
               \<lparr>copied = (case shut of Inr _ \<Rightarrow> Inr sum_bytes | Inl x \<Rightarrow> Inl x), finished = t,
                delivered = out\<rparr>
           | DataBytes (b # bs) \<Rightarrow>
               (let got = take RELAY_BUFFER_BYTES (b # bs);
                    rest = drop RELAY_BUFFER_BYTES (b # bs);
                    events' = (if rest = [] then events else (at, DataBytes rest) # events);
                    (d, outcome) = next_write ws
                in case outcome of
                     WrFail e k \<Rightarrow>
                       \<lparr>copied = Inl e, finished = t + d, delivered = out @ [(t + d, take k got)]\<rparr>
                   | WrOk \<Rightarrow>
                       copy_loop idle shut events' (tl ws) (t + d) (t + d + idle)
                         (sum_bytes + length got) (out @ [(t + d, got)])))"
  by pat_completeness auto
termination
  by (relation "measure (\<lambda>(idle, shut, events, ws, now, deadline, sum_bytes, out).
        sum_list (map event_size events))")
    (auto simp: RELAY_BUFFER_BYTES_def split: if_splits)

definition copy_with_idle_timeout ::
  "duration \<Rightarrow> instant \<Rightarrow> data_stream \<Rightarrow> data_stream \<Rightarrow> copy_outcome" where
  "copy_with_idle_timeout idle start reader writer =
     copy_loop idle (shutdown_result writer) (arrivals reader) (data_writes writer) start
       (start + idle) 0 []"

text \<open>
  \<^verbatim>\<open>try_join!\<close>: both directions run; the first error ends both, and what the other direction had
  not delivered by then is never delivered.
\<close>

record relay_outcome =
  relayed :: "(nat \<times> nat) io_result"
  relay_finished :: instant
  to_backend :: bytes
  to_client :: bytes

definition delivered_by :: "instant \<Rightarrow> copy_outcome \<Rightarrow> bytes" where
  "delivered_by t r = concat (map snd (filter (\<lambda>(at, bs). at \<le> t) (delivered r)))"

definition relay_bidirectional ::
  "duration \<Rightarrow> instant \<Rightarrow> data_stream \<Rightarrow> data_stream \<Rightarrow> relay_outcome" where
  "relay_bidirectional idle start client backend =
     (let up = copy_with_idle_timeout idle start client backend;
          down = copy_with_idle_timeout idle start backend client;
          (result, t) =
            (case (copied up, copied down) of
               (Inr n, Inr k) \<Rightarrow> (Inr (n, k), max (finished up) (finished down))
             | (Inl e, Inr k) \<Rightarrow> (Inl e, finished up)
             | (Inr n, Inl e) \<Rightarrow> (Inl e, finished down)
             | (Inl e, Inl e') \<Rightarrow>
                 if finished up \<le> finished down then (Inl e, finished up)
                 else (Inl e', finished down))
      in \<lparr>relayed = result, relay_finished = t, to_backend = delivered_by t up,
          to_client = delivered_by t down\<rparr>)"

section \<open>Frames of the control connection\<close>

lemma command_reply_sends:
  assumes "command_reply command limits c = (r, c')"
  shows "(\<exists>b. tx c' = tx c @ [(secure c, b)] \<and> prefix b (command_bytes command)) \<and> secure c' = secure c"
proof -
  obtain w c1 where w: "write_all (utf8_encode (lit command @ crlf)) c = (w, c1)" by fastforce
  have "reads c1 (snd (read_line (unat (max_line_bytes limits)) c1))" by (rule read_line_reads)
  with write_all_sends [OF w] assms w show ?thesis
    by (auto simp: command_reply_def command_bytes_def reads_def
        split: sum.splits timed.splits prod.splits if_splits)
qed

lemma command_reply_Err: "command_reply command limits c = (Inl e, c') \<Longrightarrow> \<exists>x. e = ControlConnection x"
  by (auto simp: command_reply_def split: sum.splits timed.splits prod.splits if_splits)

section \<open>Staying in step with the backend\<close>

text \<open>A complete line of bytes: one newline, at its end.\<close>

definition byte_line :: "bytes \<Rightarrow> bool" where
  "byte_line l \<longleftrightarrow> l \<noteq> [] \<and> last l = newline \<and> newline \<notin> set (butlast l)"

text \<open>The exchange of \<open>n\<close> commands: \<open>n\<close> writes, \<open>n\<close> complete reply lines consumed.\<close>

definition exchanged :: "string list \<Rightarrow> conn \<Rightarrow> conn \<Rightarrow> bool" where
  "exchanged commands c c' \<longleftrightarrow>
     tx c' = tx c @ map (\<lambda>cmd. (secure c, command_bytes cmd)) commands \<and> secure c' = secure c \<and>
     (\<exists>ls. length ls = length commands \<and> list_all byte_line ls \<and> unread c = concat ls @ unread c')"

lemma exchanged_trans:
  assumes "exchanged xs a b" and "exchanged ys b c"
  shows "exchanged (xs @ ys) a c"
proof -
  from assms obtain ls ms where "length ls = length xs" "list_all byte_line ls"
    "unread a = concat ls @ unread b" "length ms = length ys" "list_all byte_line ms"
    "unread b = concat ms @ unread c" by (auto simp: exchanged_def)
  then show ?thesis
    using assms by (auto simp: exchanged_def intro!: exI [of _ "ls @ ms"])
qed

lemma command_reply_Ok:
  assumes "command_reply command limits c = (Inr line, c')"
  shows "exchanged [command] c c'"
proof -
  obtain w c1 where w: "write_all (utf8_encode (lit command @ crlf)) c = (w, c1)" by fastforce
  with assms obtain n where w': "w = Inr ()" and n: "n \<noteq> 0" "ends_with_char line 10"
    and r: "read_line (unat (max_line_bytes limits)) c1 = (Ready (Inr (n, line)), c')"
    by (auto simp: command_reply_def split: sum.splits timed.splits prod.splits if_splits)
  let ?l = "line_of (unat (max_line_bytes limits)) (unread c1)"
  have e: "utf8_encode line = ?l" and u: "unread c1 = ?l @ unread c'"
    by (rule read_line_Ok(1) [OF r], rule read_line_Ok(3) [OF r])
  have "line = butlast line @ [10]" using n(2) by (simp add: ends_with_char_def) (metis append_butlast_last_id)
  then have "?l = utf8_encode (butlast line) @ [newline]"
    using e by (metis utf8_encode_append utf8_encode_newline)
  then have "byte_line ?l"
    using line_of_newline [of "unat (max_line_bytes limits)" "unread c1"] by (simp add: byte_line_def)
  moreover have "reads c1 c'" using read_line_reads [of c1 "unat (max_line_bytes limits)"] r by simp
  moreover note write_all_sends [OF w]
  ultimately show ?thesis
    using u w' by (auto simp: exchanged_def command_bytes_def reads_def unread_def intro!: exI [of _ "[?l]"])
qed

lemma passive_reply_Ok:
  assumes "passive_reply limits c = (Inr (mode, line), c')"
  shows "exchanged (if mode = EpsvMode then [''EPSV''] else if passive_mode limits = PasvMode then [''PASV'']
      else [''EPSV'', ''PASV'']) c c'"
  using assms exchanged_trans [of "[''EPSV'']" c _ "[''PASV'']" c']
  by (auto simp: passive_reply_def split: backend_passive_mode.splits prod.splits sum.splits if_splits
      dest!: command_reply_Ok)

lemma passive_reply_Err: "passive_reply limits c = (Inl e, c') \<Longrightarrow> \<exists>x. e = ControlConnection x"
  by (auto simp: passive_reply_def split: backend_passive_mode.splits prod.splits sum.splits if_splits
      dest: command_reply_Err)

lemma data_address_target:
  assumes "data_address limits control_peer mode line = Inr addr"
  shows "(mode = EpsvMode \<longrightarrow> (\<exists>peer. control_peer = Some peer \<and> sa_ip addr = sa_ip peer))
    \<and> (fallback_to_control_ip limits \<longrightarrow> (\<forall>ip port. control_peer = Some (SocketAddr (V4 ip) port) \<longrightarrow>
         ip \<noteq> UNSPECIFIED \<longrightarrow> sa_ip addr \<noteq> V4 UNSPECIFIED))"
  using assms
  by (auto simp: data_address_def data_ip_def is_unspecified_def
      split: backend_passive_mode.splits option.splits prod.splits if_splits)

text \<open>C15: opening a backend data connection keeps the control connection in step. Unless it reports
  the control connection as lost, it has sent only passive commands (one, or \<^verbatim>\<open>EPSV\<close> and then
  \<^verbatim>\<open>PASV\<close>) and consumed exactly one complete reply line for each; and where it connects, it
  connects from the session's source address, after \<^verbatim>\<open>EPSV\<close> to the control connection's own
  address, and with the fallback enabled never to \<^verbatim>\<open>0.0.0.0\<close>.\<close>

theorem data_connection_keeps_step:
  assumes "open_backend_data_connection net local_ip limits control_peer c = (r, c')"
    and "\<forall>e. r \<noteq> Inl (ControlConnection e)"
  shows "(\<exists>commands \<in> {[''EPSV''], [''PASV''], [''EPSV'', ''PASV'']}. exchanged commands c c' \<and>
      (\<forall>stream. r = Inr stream \<longrightarrow> (\<exists>addr. connect_from net addr local_ip = Ready (Inr stream)
         \<and> (commands = [''EPSV''] \<longrightarrow> (\<exists>peer. control_peer = Some peer \<and> sa_ip addr = sa_ip peer))
         \<and> (fallback_to_control_ip limits \<longrightarrow> (\<forall>ip port. control_peer = Some (SocketAddr (V4 ip) port) \<longrightarrow>
              ip \<noteq> UNSPECIFIED \<longrightarrow> sa_ip addr \<noteq> V4 UNSPECIFIED)))))"
proof -
  obtain q c1 where q: "passive_reply limits c = (q, c1)" by fastforce
  show ?thesis
  proof (cases q)
    case (Inl e)
    then obtain x where "e = ControlConnection x" using passive_reply_Err q by blast
    with assms q Inl have False by (auto simp: open_backend_data_connection_def)
    then show ?thesis ..
  next
    case (Inr ml)
    obtain mode line where ml: "ml = (mode, line)" by fastforce
    let ?cmds = "if mode = EpsvMode then [''EPSV''] else if passive_mode limits = PasvMode then [''PASV'']
      else [''EPSV'', ''PASV'']"
    have c1: "c' = c1" and x: "exchanged ?cmds c c1"
      using assms(1) q Inr ml passive_reply_Ok
      by (auto simp: open_backend_data_connection_def split: sum.splits timed.splits)
    have epsv: "?cmds = [''EPSV''] \<longleftrightarrow> mode = EpsvMode" by simp
    have "\<exists>addr. connect_from net addr local_ip = Ready (Inr stream)
         \<and> (?cmds = [''EPSV''] \<longrightarrow> (\<exists>peer. control_peer = Some peer \<and> sa_ip addr = sa_ip peer))
         \<and> (fallback_to_control_ip limits \<longrightarrow> (\<forall>ip port. control_peer = Some (SocketAddr (V4 ip) port) \<longrightarrow>
              ip \<noteq> UNSPECIFIED \<longrightarrow> sa_ip addr \<noteq> V4 UNSPECIFIED))" if ok: "r = Inr stream" for stream
    proof -
      obtain addr where "data_address limits control_peer mode line = Inr addr"
        and "connect_from net addr local_ip = Ready (Inr stream)"
        using assms(1) q Inr ml ok
        by (auto simp: open_backend_data_connection_def split: sum.splits timed.splits)
      with data_address_target [of limits control_peer mode line addr] show ?thesis
        unfolding epsv by blast
    qed
    with x c1 show ?thesis by (intro bexI [of _ ?cmds]) auto
  qed
qed

text \<open>A backend that answers \<^verbatim>\<open>EPSV\<close> with a port and accepts the connection.\<close>

definition epsv_conn :: conn where
  "epsv_conn = new_conn [RxBytes (''229 (|||8192|)'' @ [newline])] []"

definition epsv_limits :: connect_limits where
  "epsv_limits = \<lparr>max_line_bytes = 64, fallback_to_control_ip = True, passive_mode = EpsvMode\<rparr>"

definition open_net :: "data_stream net" where
  "open_net =
     \<lparr>net_now = 0, net_lookup = (\<lambda>_ _. Elapsed), net_lookup_done = 0,
      net_connect = (\<lambda>a. Ready (Inr \<lparr>arrivals = [], data_writes = [], shutdown_result = Inr ()\<rparr>)),
      net_socket_v4 = Inr (), net_bind = (\<lambda>_. Inr ()), net_connect_bound = (\<lambda>_ _. Elapsed)\<rparr>"

lemma epsv_exchange:
  "open_backend_data_connection open_net None epsv_limits (Some (SocketAddr (V4 LOCALHOST) 21)) epsv_conn =
     (Inr \<lparr>arrivals = [], data_writes = [], shutdown_result = Inr ()\<rparr>,
      \<lparr>buf = [], rx = [], tx = [(False, command_bytes ''EPSV'')], wr = [], secure = False\<rparr>)"
  by (simp add: open_backend_data_connection_def passive_reply_def command_reply_def write_all_def
      new_conn_def epsv_conn_def epsv_limits_def read_line_def read_until.simps utf8_decode_def
      ends_with_char_def lit_def ch_def data_address_def parse_epsv_reply_def parenthesised_def
      is_ascii_graphic_def parse_u16_def parse_uint_def is_ascii_digit_def connect_from_def open_net_def
      command_bytes_def)

theorem data_connection_keeps_step_witness:
  "\<exists>commands \<in> {[''EPSV''], [''PASV''], [''EPSV'', ''PASV'']}.
     exchanged commands epsv_conn
       \<lparr>buf = [], rx = [], tx = [(False, command_bytes ''EPSV'')], wr = [], secure = False\<rparr>"
  using data_connection_keeps_step [OF epsv_exchange] by auto

section \<open>The bytes of a transfer\<close>

declare copy_loop.simps(2) [simp del]

text \<open>What a data connection sends before it ends.\<close>

fun payload :: "(instant \<times> data_event) list \<Rightarrow> bytes" where
  "payload [] = []"
| "payload ((t, DataErr e) # events) = []"
| "payload ((t, DataBytes bs) # events) = (if bs = [] then [] else bs @ payload events)"

abbreviation sent :: "(instant \<times> bytes) list \<Rightarrow> bytes" where
  "sent out \<equiv> concat (map snd out)"

lemma payload_split:
  "payload ((at, DataBytes (b # bs)) # events) =
     take RELAY_BUFFER_BYTES (b # bs) @
     payload (if drop RELAY_BUFFER_BYTES (b # bs) = [] then events
              else (at, DataBytes (drop RELAY_BUFFER_BYTES (b # bs))) # events)"
proof -
  have "(b # bs) @ payload events =
      take RELAY_BUFFER_BYTES (b # bs) @ drop RELAY_BUFFER_BYTES (b # bs) @ payload events"
    by (metis append.assoc append_take_drop_id)
  then show ?thesis by (simp del: take_Cons' drop_Cons')
qed

text \<open>
  One round of the loop on data, as an equation: what is read now, what is left, and the next
  write.
\<close>

lemma copy_loop_data:
  assumes "max now at \<le> deadline"
  shows "copy_loop idle shut ((at, DataBytes (b # bs)) # events) ws now deadline k out =
    (let got = take RELAY_BUFFER_BYTES (b # bs);
         events' = (if drop RELAY_BUFFER_BYTES (b # bs) = [] then events
                    else (at, DataBytes (drop RELAY_BUFFER_BYTES (b # bs))) # events);
         (d, outcome) = next_write ws
     in case outcome of
          WrFail e j \<Rightarrow> \<lparr>copied = Inl e, finished = max now at + d,
                        delivered = out @ [(max now at + d, take j got)]\<rparr>
        | WrOk \<Rightarrow> copy_loop idle shut events' (tl ws) (max now at + d) (max now at + d + idle)
                    (k + length got) (out @ [(max now at + d, got)]))"
proof -
  have "\<not> deadline < max now at" using assms by (simp only: not_less)
  then show ?thesis
    by (subst copy_loop.simps) (simp only: Let_def if_False data_event.case list.case)
qed

lemma copy_loop_written:
  assumes "max now at \<le> deadline" and "next_write ws = (d, WrOk)"
  shows "copy_loop idle shut ((at, DataBytes (b # bs)) # events) ws now deadline k out =
    copy_loop idle shut
      (if drop RELAY_BUFFER_BYTES (b # bs) = [] then events
       else (at, DataBytes (drop RELAY_BUFFER_BYTES (b # bs))) # events)
      (tl ws) (max now at + d) (max now at + d + idle) (k + length (take RELAY_BUFFER_BYTES (b # bs)))
      (out @ [(max now at + d, take RELAY_BUFFER_BYTES (b # bs))])"
  unfolding copy_loop_data [OF assms(1)] assms(2) by (simp only: Let_def prod.case write_outcome.case)

lemma copy_loop_late:
  "deadline < max now at \<Longrightarrow> copy_loop idle shut ((at, ev) # events) ws now deadline k out =
     \<lparr>copied = Inl TimedOut, finished = deadline, delivered = out\<rparr>"
  by (subst copy_loop.simps) (simp add: Let_def)

lemma copy_loop_end:
  "max now at \<le> deadline \<Longrightarrow> copy_loop idle shut ((at, DataBytes []) # events) ws now deadline k out =
     \<lparr>copied = (case shut of Inr _ \<Rightarrow> Inr k | Inl x \<Rightarrow> Inl x), finished = max now at, delivered = out\<rparr>"
  "max now at \<le> deadline \<Longrightarrow> copy_loop idle shut ((at, DataErr e) # events) ws now deadline k out =
     (if e = UnexpectedEof
      then \<lparr>copied = (case shut of Inr _ \<Rightarrow> Inr k | Inl x \<Rightarrow> Inl x), finished = max now at, delivered = out\<rparr>
      else \<lparr>copied = Inl e, finished = max now at, delivered = out\<rparr>)"
  by (subst copy_loop.simps; simp add: Let_def not_less)+

text \<open>The order of deliveries: at nondecreasing times, none after the end.\<close>

definition in_order :: "instant \<Rightarrow> (instant \<times> bytes) list \<Rightarrow> bool" where
  "in_order t out \<longleftrightarrow> sorted (map fst out) \<and> (\<forall>x \<in> set out. fst x \<le> t)"

lemma in_order_snoc: "in_order t out \<Longrightarrow> t \<le> t' \<Longrightarrow> in_order t' (out @ [(t', bs)])"
  by (auto simp: in_order_def sorted_append)

lemma in_order_mono: "in_order t out \<Longrightarrow> t \<le> t' \<Longrightarrow> in_order t' out"
  by (auto simp: in_order_def)

text \<open>
  What the loop guarantees in every case: it delivers a prefix of the payload, in order of time,
  and everything if it succeeds.
\<close>

definition copy_sound :: "nat \<Rightarrow> (instant \<times> bytes) list \<Rightarrow> bytes \<Rightarrow> copy_outcome \<Rightarrow> bool" where
  "copy_sound k out bs r \<longleftrightarrow>
     prefix (sent (delivered r)) (sent out @ bs) \<and> in_order (finished r) (delivered r) \<and>
     (\<forall>n. copied r = Inr n \<longrightarrow> n = k + length bs \<and> sent (delivered r) = sent out @ bs)"

lemma copy_sound_step: "copy_sound (k + length got) (out @ [(t, got)]) bs r \<Longrightarrow> copy_sound k out (got @ bs) r"
  by (auto simp: copy_sound_def)

lemma copy_loop_sound:
  "in_order now out \<Longrightarrow> now \<le> deadline \<Longrightarrow>
     copy_sound k out (payload events) (copy_loop idle shut events ws now deadline k out)"
proof (induction idle shut events ws now deadline k out rule: copy_loop.induct)
  case (1 idle shut ws now deadline k out)
  then show ?case by (simp add: copy_sound_def in_order_mono)
next
  case (2 idle shut at ev events ws now deadline k out)
  show ?case
  proof (cases "deadline < max now at")
    case True
    then show ?thesis
      using 2(2,3) by (simp only: copy_loop_late) (simp add: copy_sound_def in_order_mono)
  next
    case False
    then have t: "max now at \<le> deadline" by (simp only: not_less)
    show ?thesis
    proof (cases "\<exists>b bs. ev = DataBytes (b # bs)")
      case no: False
      then have "ev = DataBytes [] \<or> (\<exists>e. ev = DataErr e)"
        by (metis data_event.exhaust list.exhaust)
      then show ?thesis
        using 2(2,3) t
        by (auto simp: copy_sound_def copy_loop_end intro: in_order_mono
          split: sum.splits if_splits)
    next
      case True
      then obtain b bs where ev: "ev = DataBytes (b # bs)" by blast
      let ?got = "take RELAY_BUFFER_BYTES (b # bs)"
      let ?rest = "if drop RELAY_BUFFER_BYTES (b # bs) = [] then events
        else (at, DataBytes (drop RELAY_BUFFER_BYTES (b # bs))) # events"
      obtain d w where w: "next_write ws = (d, w)" by fastforce
      let ?t = "max now at + d"
      have ord: "in_order ?t (out @ [(?t, x)])" for x
        using 2(2) by (rule in_order_snoc) simp
      have split: "payload ((at, ev) # events) = ?got @ payload ?rest"
        unfolding ev by (rule payload_split)
      show ?thesis
      proof (cases w)
        case (WrFail e j)
        have "copy_loop idle shut ((at, ev) # events) ws now deadline k out =
            \<lparr>copied = Inl e, finished = ?t, delivered = out @ [(?t, take j ?got)]\<rparr>"
          unfolding ev using copy_loop_data [OF t] w WrFail by (simp add: Let_def)
        moreover have "prefix (take j ?got) (?got @ payload ?rest)"
          by (rule prefix_prefix [OF take_is_prefix])
        ultimately show ?thesis using ord unfolding split by (simp only: copy_sound_def) simp
      next
        case WrOk
        have eq: "copy_loop idle shut ((at, ev) # events) ws now deadline k out =
            copy_loop idle shut ?rest (tl ws) ?t (?t + idle) (k + length ?got) (out @ [(?t, ?got)])"
          unfolding ev using copy_loop_written [OF t] w WrOk by blast
        have "copy_sound (k + length ?got) (out @ [(?t, ?got)]) (payload ?rest)
            (copy_loop idle shut ?rest (tl ws) ?t (?t + idle) (k + length ?got) (out @ [(?t, ?got)]))"
          using 2(1) [of "max now at" "b # bs" b bs ?got _ ?rest "(d, w)" d w] ord False ev w WrOk
          by simp
        then show ?thesis unfolding eq split by (rule copy_sound_step)
      qed
    qed
  qed
qed

text \<open>A side that always sends something, or ends, within the idle time of its last activity.\<close>

fun within_idle :: "duration \<Rightarrow> instant \<Rightarrow> (instant \<times> data_event) list \<Rightarrow> bool" where
  "within_idle idle last_at [] = False"
| "within_idle idle last_at ((at, DataErr e) # events) = (e = UnexpectedEof \<and> at \<le> last_at + idle)"
| "within_idle idle last_at ((at, DataBytes bs) # events) =
     (at \<le> last_at + idle \<and> (bs = [] \<or> within_idle idle (max last_at at) events))"

definition writes_succeed :: "(duration \<times> write_outcome) list \<Rightarrow> bool" where
  "writes_succeed ws \<longleftrightarrow> list_all (\<lambda>w. snd w = WrOk) ws"

lemma within_idle_later: "within_idle idle a events \<Longrightarrow> a \<le> b \<Longrightarrow> within_idle idle b events"
proof (induction idle a events arbitrary: b rule: within_idle.induct)
  case (3 idle a at bs events)
  then show ?case by (auto intro: "3.IH")
qed auto

lemma copy_loop_completes:
  "within_idle idle now events \<Longrightarrow> writes_succeed ws \<Longrightarrow>
     \<exists>n. copied (copy_loop idle (Inr ()) events ws now (now + idle) k out) = Inr n"
proof (induction "sum_list (map event_size events)" arbitrary: events ws now k out rule: less_induct)
  case less
  from less.prems(1) obtain at ev more where es: "events = (at, ev) # more"
    by (cases events) auto
  with less.prems(1) have t: "max now at \<le> now + idle" by (cases ev) auto
  show ?case
  proof (cases "\<exists>b bs. ev = DataBytes (b # bs)")
    case False
    then have "ev = DataBytes [] \<or> (\<exists>e. ev = DataErr e)" by (metis data_event.exhaust list.exhaust)
    then show ?thesis using less.prems(1) es t by (auto simp: copy_loop_end)
  next
    case True
    then obtain b bs where ev: "ev = DataBytes (b # bs)" by blast
    let ?rest = "if drop RELAY_BUFFER_BYTES (b # bs) = [] then more
      else (at, DataBytes (drop RELAY_BUFFER_BYTES (b # bs))) # more"
    obtain d w where w: "next_write ws = (d, w)" by fastforce
    then have ok: "w = WrOk" and tl: "writes_succeed (tl ws)"
      using less.prems(2) by (cases ws; auto simp: writes_succeed_def)+
    let ?t = "max now at + d"
    have "within_idle idle (max now at) ?rest"
      using less.prems(1) es ev by auto
    then have "within_idle idle ?t ?rest" by (rule within_idle_later) simp
    moreover have "sum_list (map event_size ?rest) < sum_list (map event_size events)"
      using es ev by (auto simp: RELAY_BUFFER_BYTES_def)
    ultimately have "\<exists>n. copied (copy_loop idle (Inr ()) ?rest (tl ws) ?t (?t + idle)
        (k + length (take RELAY_BUFFER_BYTES (b # bs)))
        (out @ [(?t, take RELAY_BUFFER_BYTES (b # bs))])) = Inr n"
      using tl by (intro less.hyps)
    then show ?thesis unfolding es ev copy_loop_written [OF t w [unfolded ok]] .
  qed
qed

section \<open>Both directions\<close>

lemma delivered_by_prefix:
  assumes "in_order t (delivered r)"
  shows "prefix (delivered_by s r) (sent (delivered r)) \<and> (t \<le> s \<longrightarrow> delivered_by s r = sent (delivered r))"
proof -
  have "filter (\<lambda>(at, bs). at \<le> s) out = takeWhile (\<lambda>(at, bs). at \<le> s) out"
    if "sorted (map fst out)" for out :: "(instant \<times> bytes) list"
    using that
  proof (induction out)
    case (Cons x out)
    show ?case
    proof (cases "fst x \<le> s")
      case False
      then have "\<forall>y \<in> set out. \<not> fst y \<le> s" using Cons.prems by auto
      then show ?thesis using False by (auto simp: case_prod_beta filter_empty_conv)
    qed (use Cons in \<open>auto simp: case_prod_beta\<close>)
  qed simp
  then have eq: "delivered_by s r = sent (takeWhile (\<lambda>(at, bs). at \<le> s) (delivered r))"
    using assms by (simp add: delivered_by_def in_order_def)
  have "sent (delivered r) = sent (takeWhile (\<lambda>(at, bs). at \<le> s) (delivered r)) @
      sent (dropWhile (\<lambda>(at, bs). at \<le> s) (delivered r))"
    by (metis concat_append map_append takeWhile_dropWhile_id)
  moreover have "delivered_by s r = sent (delivered r)" if "t \<le> s"
    using assms that by (auto simp: delivered_by_def in_order_def intro!: arg_cong [of _ _ concat]
        arg_cong [of _ _ "map snd"] filter_True)
  ultimately show ?thesis unfolding eq by (metis prefixI)
qed

lemma copy_sound_start:
  "copy_sound 0 [] (payload (arrivals reader)) (copy_with_idle_timeout idle start reader writer)"
  unfolding copy_with_idle_timeout_def by (rule copy_loop_sound) (simp_all add: in_order_def)

text \<open>An upload of two bytes, and the backend's side of it.\<close>

definition short_upload :: data_stream where
  "short_upload = \<lparr>arrivals = [(1, DataBytes ''ab''), (2, DataBytes [])], data_writes = [],
     shutdown_result = Inr ()\<rparr>"

definition receiving_backend :: data_stream where
  "receiving_backend = \<lparr>arrivals = [(3, DataBytes [])], data_writes = [], shutdown_result = Inr ()\<rparr>"

text \<open>C12: a transfer relays an opaque stream of bytes faithfully. At every point, what the backend
  has received is a prefix of what the client sent, and the other way round, whatever the sizes
  and times of reads and writes; and if the relay reports success then each side has received
  everything the other sent until it ended, and the reported numbers of bytes are the true
  ones.\<close>

theorem relay_is_faithful:
  "prefix (to_backend (relay_bidirectional idle start client backend)) (payload (arrivals client))
   \<and> prefix (to_client (relay_bidirectional idle start client backend)) (payload (arrivals backend))
   \<and> (\<forall>n k. relayed (relay_bidirectional idle start client backend) = Inr (n, k) \<longrightarrow>
        to_backend (relay_bidirectional idle start client backend) = payload (arrivals client)
        \<and> to_client (relay_bidirectional idle start client backend) = payload (arrivals backend)
        \<and> n = length (payload (arrivals client)) \<and> k = length (payload (arrivals backend)))"
proof -
  define up where "up = copy_with_idle_timeout idle start client backend"
  define down where "down = copy_with_idle_timeout idle start backend client"
  have u: "copy_sound 0 [] (payload (arrivals client)) up" and d: "copy_sound 0 [] (payload (arrivals backend)) down"
    unfolding up_def down_def by (rule copy_sound_start)+
  let ?r = "relay_bidirectional idle start client backend"
  have "\<exists>t. to_backend ?r = delivered_by t up \<and> to_client ?r = delivered_by t down \<and>
      (\<forall>n k. relayed ?r = Inr (n, k) \<longrightarrow> copied up = Inr n \<and> copied down = Inr k \<and>
         t = max (finished up) (finished down))"
    unfolding relay_bidirectional_def Let_def up_def [symmetric] down_def [symmetric]
    by (auto split: sum.splits)
  then obtain t where t: "to_backend ?r = delivered_by t up" "to_client ?r = delivered_by t down"
    and ok: "\<And>n k. relayed ?r = Inr (n, k) \<Longrightarrow> copied up = Inr n \<and> copied down = Inr k \<and>
         t = max (finished up) (finished down)" by blast
  have pu: "prefix (delivered_by t up) (sent (delivered up)) \<and>
      (finished up \<le> t \<longrightarrow> delivered_by t up = sent (delivered up))"
    and pd: "prefix (delivered_by t down) (sent (delivered down)) \<and>
      (finished down \<le> t \<longrightarrow> delivered_by t down = sent (delivered down))"
    using u d by (auto simp: copy_sound_def intro!: delivered_by_prefix)
  show ?thesis
    using u d t ok pu pd by (auto simp: copy_sound_def intro: prefix_order.order_trans)
qed

theorem relay_is_faithful_witness:
  "relayed (relay_bidirectional 5 0 short_upload receiving_backend) = Inr (2, 0)
   \<and> to_backend (relay_bidirectional 5 0 short_upload receiving_backend) = ''ab''"
proof -
  have r: "relayed (relay_bidirectional 5 0 short_upload receiving_backend) = Inr (2, 0)"
    by (simp add: relay_bidirectional_def copy_with_idle_timeout_def copy_loop.simps Let_def short_upload_def
        receiving_backend_def RELAY_BUFFER_BYTES_def)
  with relay_is_faithful [of 5 0 short_upload receiving_backend] have
    "to_backend (relay_bidirectional 5 0 short_upload receiving_backend) = payload (arrivals short_upload)"
    by blast
  with r show ?thesis by (simp add: short_upload_def)
qed

text \<open>C38: a transfer on which both sides stay within the idle time of their own last activity
  until they end, and whose writes succeed, completes and delivers every byte.\<close>

theorem active_relay_completes:
  assumes "within_idle idle start (arrivals client)" and "within_idle idle start (arrivals backend)"
    and "writes_succeed (data_writes client)" and "writes_succeed (data_writes backend)"
    and "shutdown_result client = Inr ()" and "shutdown_result backend = Inr ()"
  shows "relayed (relay_bidirectional idle start client backend) =
      Inr (length (payload (arrivals client)), length (payload (arrivals backend)))"
proof -
  obtain n k where n: "copied (copy_with_idle_timeout idle start client backend) = Inr n"
    and k: "copied (copy_with_idle_timeout idle start backend client) = Inr k"
    using copy_loop_completes [OF assms(1,4)] copy_loop_completes [OF assms(2,3)] assms(5,6)
    unfolding copy_with_idle_timeout_def by metis
  then have "n = length (payload (arrivals client))" "k = length (payload (arrivals backend))"
    using copy_sound_start [of client idle start backend] copy_sound_start [of backend idle start client]
    by (auto simp: copy_sound_def)
  with n k show ?thesis by (simp add: relay_bidirectional_def Let_def)
qed

theorem active_relay_completes_witness:
  "relayed (relay_bidirectional 5 0 short_upload receiving_backend) = Inr (2, 0)"
  using active_relay_completes [of 5 0 short_upload receiving_backend]
  by (simp add: short_upload_def receiving_backend_def writes_succeed_def)


text \<open>An upload with a byte every thirty seconds, cut off by an idle time of sixty.\<close>

definition steady_upload :: data_stream where
  "steady_upload = \<lparr>arrivals = [(30, DataBytes ''a''), (60, DataBytes ''b''), (90, DataBytes ''c''),
     (91, DataBytes [])], data_writes = [], shutdown_result = Inr ()\<rparr>"

definition storing_backend :: data_stream where
  "storing_backend = \<lparr>arrivals = [(92, DataBytes [])], data_writes = [], shutdown_result = Inr ()\<rparr>"


end
