(* ===== verification/Source_Select.thy ===== *)
theory Source_Select
  imports Gateway_Config
begin

text \<open>
  \<^verbatim>\<open>src/backend/source.rs\<close>: which local addresses backend connections may come from. The
  interface listing of the operating system (\<^verbatim>\<open>if_addrs\<close>) is a parameter. The index loop of
  \<^verbatim>\<open>glob_match\<close> is modelled as it is written, with its termination proof, and proved equivalent
  to the declarative meaning of the wildcards; the selection is proved sorted, free of duplicates
  and to contain exactly the addresses the configuration asks for.
\<close>

section \<open>Interfaces\<close>

record interface_addr =
  interface_name :: ustr
  interface_ip :: ipv4_addr

text \<open>What \<^verbatim>\<open>get_if_addrs\<close> reports of an interface: its name and one address.\<close>

record os_interface =
  os_name :: ustr
  os_addr :: ip_addr

definition system_list :: "os_interface list io_result \<Rightarrow> interface_addr list io_result" where
  "system_list listed =
     (case listed of
        Inl e \<Rightarrow> Inl e
      | Inr is \<Rightarrow> Inr (List.map_filter (\<lambda>i.
          case os_addr i of
            V4 ip \<Rightarrow> Some \<lparr>interface_name = os_name i, interface_ip = ip\<rparr>
          | V6 _ \<Rightarrow> None) is))"

definition BUILT_IN_VIRTUAL_INTERFACES :: "ustr list" where
  "BUILT_IN_VIRTUAL_INTERFACES =
     map lit [''lo'', ''docker*'', ''br-*'', ''veth*'', ''virbr*'', ''cni*'', ''flannel*'', ''cali*'',
       ''tun*'', ''tap*'', ''tailscale*'', ''wg*'']"

section \<open>Wildcards\<close>

abbreviation star_char :: uchar where "star_char \<equiv> ch CHR ''*''"
abbreviation any_char :: uchar where "any_char \<equiv> ch CHR ''?''"

text \<open>
  The loop of \<^verbatim>\<open>glob_match\<close> on positions \<open>p\<close> in the pattern and \<open>t\<close> in the text; \<open>star\<close> is
  where the last star was and how much of the text it has swallowed.
\<close>

function glob_loop :: "ustr \<Rightarrow> ustr \<Rightarrow> nat \<Rightarrow> nat \<Rightarrow> (nat \<times> nat) option \<Rightarrow> bool" where
  "glob_loop pat tx p t star =
     (if t < length tx then
        if p < length pat \<and> (pat ! p = any_char \<or> pat ! p = tx ! t) then
          glob_loop pat tx (p + 1) (t + 1) star
        else if p < length pat \<and> pat ! p = star_char then
          glob_loop pat tx (p + 1) t (Some (p, t))
        else (case star of
            Some (star_p, star_t) \<Rightarrow>
              glob_loop pat tx (star_p + 1) (star_t + 1) (Some (star_p, star_t + 1))
          | None \<Rightarrow> False)
      else list_all (\<lambda>c. c = star_char) (drop p pat))"
  by pat_completeness auto

text \<open>
  A retry moves the text position back, but the star then swallows one more character; between
  two retries the rest of pattern and text shrinks. (A star recorded beyond the current position
  never occurs; the first component of the measure makes the argument cover it.)
\<close>

termination
proof (relation "measures
    [\<lambda>(pat, tx, p, t, star). case star of Some (sp, st) \<Rightarrow> if t < st then 1 else 0 | None \<Rightarrow> 0,
     \<lambda>(pat, tx, p, t, star). case star of Some (sp, st) \<Rightarrow> length tx - st | None \<Rightarrow> length tx + 1,
     \<lambda>(pat, tx, p, t, star). (length pat - p) + (length tx - t)]", goal_cases)
  case 1
  show ?case by simp
qed (auto split: option.splits if_splits)

declare glob_loop.simps [simp del]

definition glob_match :: "ustr \<Rightarrow> ustr \<Rightarrow> bool" where
  "glob_match pat tx = glob_loop pat tx 0 0 None"

definition matches_name :: "ustr \<Rightarrow> ustr \<Rightarrow> bool" where
  "matches_name pat name \<longleftrightarrow>
     glob_match pat name \<or>
     (case split_once (ch CHR '':'') name of
        Some (interface, alias) \<Rightarrow> glob_match pat interface
      | None \<Rightarrow> False)"

definition matches_any :: "ustr list \<Rightarrow> ustr \<Rightarrow> bool" where
  "matches_any patterns name \<longleftrightarrow> list_ex (\<lambda>pat. matches_name (trim pat) name) patterns"

section \<open>Selection\<close>

definition select_sources :: "interface_addr list \<Rightarrow> backend_source_config \<Rightarrow> ipv4_addr list" where
  "select_sources addrs c =
     (let explicit = (include_interfaces c \<noteq> []);
          usable = filter (\<lambda>a. \<not> is_unspecified (interface_ip a)) addrs;
          wanted = filter (\<lambda>a.
            if explicit then matches_any (include_interfaces c) (interface_name a)
            else \<not> is_loopback (interface_ip a) \<and> \<not> is_link_local (interface_ip a) \<and>
                 \<not> list_ex (\<lambda>pat. matches_name pat (interface_name a)) BUILT_IN_VIRTUAL_INTERFACES)
            usable;
          selected = map interface_ip
            (filter (\<lambda>a. \<not> matches_any (exclude_interfaces c) (interface_name a)) wanted)
      in remdups_adj (sort selected))"

definition resolve_sources ::
  "interface_addr list io_result \<Rightarrow> backend_source_config \<Rightarrow> ipv4_addr list io_result" where
  "resolve_sources listed c =
     (case listed of Inl e \<Rightarrow> Inl e | Inr addrs \<Rightarrow> Inr (select_sources addrs c))"

section \<open>What the wildcards mean\<close>

fun glob :: "ustr \<Rightarrow> ustr \<Rightarrow> bool" where
  "glob [] tx = (tx = [])"
| "glob (c # pat) tx =
     (if c = star_char then list_ex (\<lambda>k. glob pat (drop k tx)) [0 ..< Suc (length tx)]
      else case tx of [] \<Rightarrow> False | x # xs \<Rightarrow> (c = any_char \<or> c = x) \<and> glob pat xs)"

lemma glob_star: "glob (star_char # pat) tx \<longleftrightarrow> (\<exists>k \<le> length tx. glob pat (drop k tx))"
  by (auto simp: list_ex_iff less_Suc_eq_le simp del: upt_Suc)

lemma glob_star_drop:
  assumes "glob (star_char # pat) (drop j tx)" and "i \<le> j" and "j \<le> length tx"
  shows "glob (star_char # pat) (drop i tx)"
proof -
  from assms(1) obtain k where "k \<le> length tx - j" and k: "glob pat (drop (k + j) tx)"
    unfolding glob_star by auto
  then have "k + j - i \<le> length (drop i tx)" using assms(2,3) by simp
  moreover have "drop (k + j - i) (drop i tx) = drop (k + j) tx" using assms(2) by simp
  ultimately show ?thesis using k unfolding glob_star by metis
qed

lemma glob_all_stars: "glob pat [] \<longleftrightarrow> list_all (\<lambda>c. c = star_char) pat"
  by (induction pat) auto

lemma glob_star_free:
  "star_char \<notin> set s \<Longrightarrow> glob (s @ pat) tx \<Longrightarrow> length s \<le> length tx \<and> glob pat (drop (length s) tx)"
  by (induction s arbitrary: "tx") (auto split: list.splits)

lemma glob_step:
  assumes "p < length pat" "t < length tx" "pat ! p \<noteq> star_char"
  shows "glob (drop p pat) (drop t tx) \<longleftrightarrow>
    (pat ! p = any_char \<or> pat ! p = tx ! t) \<and> glob (drop (Suc p) pat) (drop (Suc t) tx)"
proof -
  have "drop p pat = pat ! p # drop (Suc p) pat" and "drop t tx = tx ! t # drop (Suc t) tx"
    using assms by (simp_all add: Cons_nth_drop_Suc)
  then show ?thesis using assms(3) by simp
qed

section \<open>The loop computes the meaning\<close>

text \<open>
  Since the last star, pattern and text have advanced in step over a star-free piece of the
  pattern.
\<close>

definition star_ok :: "ustr \<Rightarrow> nat \<Rightarrow> nat \<Rightarrow> (nat \<times> nat) option \<Rightarrow> bool" where
  "star_ok pat p t star \<longleftrightarrow> p \<le> length pat \<and>
     (case star of None \<Rightarrow> True
      | Some (sp, st) \<Rightarrow> sp < p \<and> st \<le> t \<and> t - st = p - Suc sp \<and>
          star_char \<notin> set (take (p - Suc sp) (drop (Suc sp) pat)))"

text \<open>What remains possible: match from here, or let the last star swallow more.\<close>

definition retry :: "ustr \<Rightarrow> ustr \<Rightarrow> (nat \<times> nat) option \<Rightarrow> bool" where
  "retry pat tx star \<longleftrightarrow>
     (case star of None \<Rightarrow> False
      | Some (sp, st) \<Rightarrow> \<exists>k. st < k \<and> k \<le> length tx \<and> glob (drop (Suc sp) pat) (drop k tx))"

lemma retry_resume:
  assumes ok: "star_ok pat p t star" and r: "retry pat tx star"
  obtains j where "t < j" "j \<le> length tx" "glob (drop p pat) (drop j tx)"
proof -
  from r obtain sp st k where s: "star = Some (sp, st)" and k: "st < k" "k \<le> length tx"
    and g: "glob (drop (Suc sp) pat) (drop k tx)"
    by (auto simp: retry_def split: option.splits)
  let ?n = "p - Suc sp"
  let ?s = "take ?n (drop (Suc sp) pat)"
  from ok s have o: "sp < p" "p \<le> length pat" "st \<le> t" "t - st = ?n" "star_char \<notin> set ?s"
    by (auto simp: star_ok_def)
  then have len: "length ?s = ?n" by simp
  have "drop ?n (drop (Suc sp) pat) = drop p pat" using o(1) by simp
  then have piece: "drop (Suc sp) pat = ?s @ drop p pat" by (metis append_take_drop_id)
  from glob_star_free [OF o(5), of "drop p pat" "drop k tx"] g len
  have "?n \<le> length tx - k" and "glob (drop p pat) (drop (?n + k) tx)"
    by (simp_all only: piece [symmetric] length_drop drop_drop)
  with k o show ?thesis by (intro that [of "?n + k"]) linarith+
qed

lemma star_alternatives:
  "t \<le> length tx \<Longrightarrow> (\<exists>k \<le> length (drop t tx). glob pat (drop k (drop t tx))) \<longleftrightarrow>
     glob pat (drop t tx) \<or> (\<exists>k. t < k \<and> k \<le> length tx \<and> glob pat (drop k tx))"
proof (intro iffI)
  assume t: "t \<le> length tx" and "\<exists>k \<le> length (drop t tx). glob pat (drop k (drop t tx))"
  then obtain k where "k + t \<le> length tx" "glob pat (drop (k + t) tx)"
    by (auto simp: le_diff_conv2)
  then show "glob pat (drop t tx) \<or> (\<exists>k. t < k \<and> k \<le> length tx \<and> glob pat (drop k tx))"
    by (cases k) auto
next
  assume t: "t \<le> length tx"
    and "glob pat (drop t tx) \<or> (\<exists>k. t < k \<and> k \<le> length tx \<and> glob pat (drop k tx))"
  then obtain k where "t \<le> k" "k \<le> length tx" "glob pat (drop k tx)" by (auto intro: less_imp_le)
  then show "\<exists>k \<le> length (drop t tx). glob pat (drop k (drop t tx))"
    by (intro exI [of _ "k - t"]) auto
qed

lemma star_ok_advance:
  assumes "star_ok pat p t star" and "p < length pat" and "pat ! p \<noteq> star_char"
  shows "star_ok pat (Suc p) (Suc t) star"
proof (cases star)
  case (Some ss)
  obtain sp st where ss: "ss = (sp, st)" by fastforce
  with assms(1) Some have o: "sp < p" "st \<le> t" "t - st = p - Suc sp"
    "star_char \<notin> set (take (p - Suc sp) (drop (Suc sp) pat))"
    by (auto simp: star_ok_def)
  have "take (Suc p - Suc sp) (drop (Suc sp) pat) =
      take (p - Suc sp) (drop (Suc sp) pat) @ [pat ! p]"
    using o(1) assms(2) by (simp add: Suc_diff_Suc take_Suc_conv_app_nth flip: Suc_diff_Suc)
  with o assms(2,3) Some ss show ?thesis by (auto simp: star_ok_def)
qed (use assms in \<open>simp add: star_ok_def\<close>)

lemma glob_loop_meaning:
  assumes "star_char \<notin> set tx" and "star_ok pat p t star" and "t \<le> length tx"
  shows "glob_loop pat tx p t star \<longleftrightarrow> glob (drop p pat) (drop t tx) \<or> retry pat tx star"
  using assms
proof (induction pat "tx" p t star rule: glob_loop.induct)
  case (1 pat tx p t star)
  note ok = "1.prems"(2)
  consider (finished) "t = length tx"
    | (advance) "t < length tx" "p < length pat" "pat ! p = any_char \<or> pat ! p = tx ! t"
    | (star) "t < length tx" "p < length pat" "pat ! p = star_char"
        "\<not> (pat ! p = any_char \<or> pat ! p = tx ! t)"
    | (stuck) "t < length tx" "\<not> (p < length pat \<and> (pat ! p = any_char \<or> pat ! p = tx ! t))"
        "\<not> (p < length pat \<and> pat ! p = star_char)"
    using "1.prems"(3) by linarith
  then show ?case
  proof cases
    case finished
    have "\<not> retry pat tx star"
      using finished retry_resume [OF ok] by (metis leD)
    then show ?thesis using finished by (simp add: glob_loop.simps glob_all_stars)
  next
    case advance
    then have c: "pat ! p \<noteq> star_char"
      using "1.prems"(1) nth_mem [of t tx] by (auto simp: ch_def, metis)
    have "glob_loop pat tx p t star = glob_loop pat tx (Suc p) (Suc t) star"
      using advance by (subst glob_loop.simps) simp
    also have "\<dots> \<longleftrightarrow> glob (drop (Suc p) pat) (drop (Suc t) tx) \<or> retry pat tx star"
      using "1.IH"(1) advance "1.prems"(1) star_ok_advance [OF ok advance(2) c] by simp
    finally show ?thesis using glob_step [OF advance(2,1) c] advance(3) by simp
  next
    case star
    have head: "drop p pat = star_char # drop (Suc p) pat"
      using star(2,3) by (metis Cons_nth_drop_Suc)
    have "glob_loop pat tx p t star \<longleftrightarrow> glob_loop pat tx (Suc p) t (Some (p, t))"
      using star by (subst glob_loop.simps) simp
    also have "\<dots> \<longleftrightarrow> glob (drop (Suc p) pat) (drop t tx) \<or> retry pat tx (Some (p, t))"
      using "1.IH"(2) star "1.prems"(1) by (simp add: star_ok_def)
    also have "\<dots> \<longleftrightarrow> glob (drop p pat) (drop t tx)"
      unfolding head glob_star retry_def using star(1) star_alternatives [of t "tx"] by simp
    finally show ?thesis
      using retry_resume [OF ok] head glob_star_drop by (metis less_imp_le)
  next
    case stuck
    have no: "\<not> glob (drop p pat) (drop t tx)"
      using stuck glob_step [of p pat t "tx"] ok by (cases "p < length pat") (auto simp: star_ok_def)
    show ?thesis
    proof (cases star)
      case None
      then show ?thesis using stuck no by (subst glob_loop.simps) (auto simp: retry_def)
    next
      case (Some ss)
      obtain sp st where ss: "ss = (sp, st)" by fastforce
      with Some ok stuck(1) have o: "sp < length pat" "st < length tx" by (auto simp: star_ok_def)
      have "glob_loop pat tx p t star =
          glob_loop pat tx (Suc sp) (Suc st) (Some (sp, Suc st))"
        using stuck Some ss by (subst glob_loop.simps) auto
      also have "\<dots> \<longleftrightarrow>
          glob (drop (Suc sp) pat) (drop (Suc st) tx) \<or> retry pat tx (Some (sp, Suc st))"
        using "1.IH"(3) [OF stuck Some ss [symmetric]] "1.prems"(1) o by (simp add: star_ok_def)
      also have "\<dots> \<longleftrightarrow> retry pat tx (Some (sp, st))"
        using o(2) by (auto simp: retry_def) (metis Suc_lessD, metis Suc_lessI)
      finally show ?thesis using no Some ss by simp
    qed
  qed
qed

lemma glob_match_glob: "star_char \<notin> set name \<Longrightarrow> glob_match pat name = glob pat name"
  using glob_loop_meaning [of name pat 0 0 None]
  by (simp add: glob_match_def star_ok_def retry_def)

text \<open>C25: the two-index loop of \<^verbatim>\<open>glob_match\<close>, with its single retry point, decides exactly
  the meaning of the wildcards (a star is any run of characters, a question mark exactly one, any
  other character itself) for every pattern and every interface name that does not itself contain
  a star.\<close>

theorem glob_match_correct:
  assumes "star_char \<notin> set name"
  shows "glob_match pat name = glob pat name"
  using assms by (rule glob_match_glob)

theorem glob_match_correct_witness:
  "star_char \<notin> set (lit ''aXbYbZc'') \<and> glob_match (lit ''a*b*c'') (lit ''aXbYbZc'')"
proof -
  have s: "star_char \<notin> set (lit ''aXbYbZc'')" by (simp add: lit_def ch_def)
  have "glob (lit ''a*b*c'') (lit ''aXbYbZc'')" by (simp add: lit_def ch_def)
  with s glob_match_correct [OF s, of "lit ''a*b*c''"] show ?thesis by simp
qed

text \<open>
  A name that contains a star is compared with a star in the pattern as a literal character
  first, and no retry point is recorded: the pattern \<^verbatim>\<open>*\<close> does not match the name
  \<^verbatim>\<open>*a\<close>, although a star is documented to be any run of characters.
\<close>

lemma literal_star_is_not_swallowed:
  "glob (lit ''*'') (lit ''*a'') \<and> \<not> glob_match (lit ''*'') (lit ''*a'')"
  by (simp add: glob_match_def glob_loop.simps lit_def ch_def)

section \<open>The selection\<close>

text \<open>What the configuration asks for, over the meaning of the wildcards.\<close>

definition pattern_hits :: "ustr \<Rightarrow> ustr \<Rightarrow> bool" where
  "pattern_hits pat name \<longleftrightarrow>
     glob pat name \<or> glob pat (takeWhile (\<lambda>c. c \<noteq> ch CHR '':'') name)"

definition eligible :: "backend_source_config \<Rightarrow> interface_addr \<Rightarrow> bool" where
  "eligible c a \<longleftrightarrow>
     \<not> is_unspecified (interface_ip a) \<and>
     (if include_interfaces c = []
      then \<not> is_loopback (interface_ip a) \<and> \<not> is_link_local (interface_ip a) \<and>
           \<not> list_ex (\<lambda>pat. pattern_hits pat (interface_name a)) BUILT_IN_VIRTUAL_INTERFACES
      else list_ex (\<lambda>pat. pattern_hits (trim pat) (interface_name a)) (include_interfaces c)) \<and>
     \<not> list_ex (\<lambda>pat. pattern_hits (trim pat) (interface_name a)) (exclude_interfaces c)"

lemma split_once_takeWhile:
  "c \<in> set s \<Longrightarrow> \<exists>b. split_once c s = Some (takeWhile (\<lambda>x. x \<noteq> c) s, b)"
  by (induction s) auto

lemma matches_name_meaning:
  assumes "star_char \<notin> set name"
  shows "matches_name pat name = pattern_hits pat name"
proof (cases "ch CHR '':'' \<in> set name")
  case True
  from split_once_takeWhile [OF True] obtain b where
    "split_once (ch CHR '':'') name = Some (takeWhile (\<lambda>c. c \<noteq> ch CHR '':'') name, b)" ..
  moreover have "star_char \<notin> set (takeWhile (\<lambda>c. c \<noteq> ch CHR '':'') name)"
    using assms set_takeWhileD by metis
  ultimately show ?thesis
    using assms by (simp add: matches_name_def pattern_hits_def glob_match_glob)
next
  case False
  then have t: "takeWhile (\<lambda>c. c \<noteq> ch CHR '':'') name = name"
    unfolding takeWhile_eq_all_conv by metis
  have "split_once (ch CHR '':'') name = None" using False by (simp add: split_once_None)
  then show ?thesis
    using assms by (simp add: matches_name_def pattern_hits_def t glob_match_glob
        del: takeWhile_eq_all_conv)
qed

lemma sort_Nil_iff [simp]: "sort xs = [] \<longleftrightarrow> xs = []"
  by (metis length_0_conv length_sort)

lemma sorted_remdups_adj: "sorted (xs :: 'a::linorder list) \<Longrightarrow> sorted (remdups_adj xs)"
  by (induction xs rule: remdups_adj.induct) auto

lemma set_select_sources:
  assumes "\<forall>a \<in> set addrs. star_char \<notin> set (interface_name a)"
  shows "set (select_sources addrs c) = interface_ip ` {a \<in> set addrs. eligible c a}"
proof -
  have "matches_name pat (interface_name a) = pattern_hits pat (interface_name a)"
    if "a \<in> set addrs" for a pat
    using assms that matches_name_meaning by blast
  then show ?thesis
    by (auto simp: select_sources_def eligible_def matches_any_def Let_def)
qed

text \<open>C24: the source addresses selected for rotation are in ascending order without duplicates,
  and are exactly the addresses of the eligible interfaces: never the unspecified address; with
  an include list, those an include pattern names (directly or as an alias of the interface);
  without one, all but loopback, link-local and virtual interfaces; in either case less those an
  exclude pattern names.\<close>

theorem selected_sources_exact:
  assumes "\<forall>a \<in> set addrs. star_char \<notin> set (interface_name a)"
  shows "sorted (select_sources addrs c) \<and> distinct (select_sources addrs c) \<and>
    set (select_sources addrs c) = interface_ip ` {a \<in> set addrs. eligible c a}"
  using set_select_sources [OF assms]
  by (simp add: select_sources_def Let_def remdups_adj_sorted_distinct sorted_remdups_adj)

definition two_interfaces :: "interface_addr list" where
  "two_interfaces = [\<lparr>interface_name = lit ''ens5:1'', interface_ip = Ipv4 10 0 1 10\<rparr>,
     \<lparr>interface_name = lit ''lo'', interface_ip = LOCALHOST\<rparr>]"

theorem selected_sources_exact_witness:
  "set (select_sources two_interfaces (default_backend_source\<lparr>include_interfaces := [lit ''ens?'']\<rparr>)) =
     {Ipv4 10 0 1 10}"
proof -
  let ?c = "default_backend_source\<lparr>include_interfaces := [lit ''ens?'']\<rparr>"
  have "\<forall>a \<in> set two_interfaces. star_char \<notin> set (interface_name a)"
    by (simp add: two_interfaces_def lit_def ch_def)
  from selected_sources_exact [OF this, of ?c]
  have "set (select_sources two_interfaces ?c) = interface_ip ` {a \<in> set two_interfaces. eligible ?c a}"
    by simp
  moreover have "trim (lit ''ens?'') = lit ''ens?''"
    by (rule trim_id) (simp add: lit_def ch_def is_whitespace_def)
  then have "eligible ?c (two_interfaces ! 0)" and "\<not> eligible ?c (two_interfaces ! 1)"
    by (simp_all add: eligible_def default_backend_source_def pattern_hits_def two_interfaces_def)
      (simp_all add: lit_def ch_def is_unspecified_def UNSPECIFIED_def)
  then have "{a \<in> set two_interfaces. eligible ?c a} = {two_interfaces ! 0}"
    by (auto simp: two_interfaces_def)
  ultimately show ?thesis by (simp add: two_interfaces_def)
qed

end
