(* ===== verification/Source_Rotator.thy ===== *)
theory Source_Rotator
  imports Source_Select Dns_Cache "HOL-Library.AList" "HOL-Library.List_Lexorder"
    "HOL-Library.Product_Lexorder"
begin

text \<open>
  \<^verbatim>\<open>src/backend/rotator.rs\<close>: which local address a session connects from, and the cap on
  concurrent data transfers per backend and source address. Hash maps that are iterated are
  association lists with distinct keys (their order is arbitrary, the code sorts what it reports);
  a tokio semaphore is its number of free permits. Claiming a data slot suspends between its
  critical sections, so each section is an operation of its own and runs interleave them freely.
  Proved: the candidates of a session are a rotation of the sources, never empty; an address that
  failed is left out for sixty seconds; slots in use never exceed the capacity and are given back;
  the rotation advances once per full cycle of data connections; and a refresh never leaves the
  rotator without sources.
\<close>

section \<open>State\<close>

definition UNHEALTHY_FOR :: duration where
  "UNHEALTHY_FOR = from_secs 60"

text \<open>\<open>permits\<close> are the free permits of the slot's semaphore.\<close>

record slot_state =
  permits :: nat
  slot_capacity :: usize
  started_total :: u64
  slot_timeouts_total :: u64

record backend_state =
  advances :: usize
  started_in_cycle :: usize
  slots :: "(ipv4_addr \<times> slot_state) list"

record rotator =
  rot_sources :: "ipv4_addr list"
  rot_unhealthy :: "ipv4_addr \<rightharpoonup> instant"
  rot_backends :: "(ustr \<times> backend_state) list"

definition default_backend_state :: backend_state where
  "default_backend_state = \<lparr>advances = 0, started_in_cycle = 0, slots = []\<rparr>"

record source_health =
  health_source :: ipv4_addr
  health_unhealthy :: bool

record transfer_stat =
  stat_backend :: ustr
  stat_source :: ipv4_addr
  stat_capacity :: usize
  stat_active :: nat
  stat_started_total :: u64
  stat_slot_timeouts_total :: u64

record rotator_snapshot =
  snap_sources :: "source_health list"
  snap_transfers :: "transfer_stat list"

section \<open>Sources\<close>

definition new_rotator :: "ipv4_addr list \<Rightarrow> rotator" where
  "new_rotator sources =
     \<lparr>rot_sources = remdups_adj (sort sources), rot_unhealthy = Map.empty, rot_backends = []\<rparr>"

definition set_sources :: "ipv4_addr list \<Rightarrow> rotator \<Rightarrow> bool \<times> rotator" where
  "set_sources sources st =
     (let sources = remdups_adj (sort sources) in
      if rot_sources st = sources then (False, st)
      else (True, st\<lparr>rot_unhealthy := (\<lambda>ip. if ip \<in> set sources then rot_unhealthy st ip else None),
                     rot_sources := sources\<rparr>))"

definition refresh_once ::
  "interface_addr list io_result \<Rightarrow> backend_source_config \<Rightarrow> rotator \<Rightarrow> rotator" where
  "refresh_once listed c st =
     (case resolve_sources listed c of
        Inr sources \<Rightarrow> if sources = [] then st else snd (set_sources sources st)
      | Inl e \<Rightarrow> st)"

datatype start_error = ListFailed io_error | NoUsableSource "ustr list" "ustr list"

definition start_rotator ::
  "interface_addr list io_result \<Rightarrow> backend_source_config \<Rightarrow> start_error + rotator" where
  "start_rotator listed c =
     (case resolve_sources listed c of
        Inl e \<Rightarrow> Inl (ListFailed e)
      | Inr sources \<Rightarrow>
          if sources = [] then Inl (NoUsableSource (include_interfaces c) (exclude_interfaces c))
          else Inr (new_rotator sources))"

text \<open>The background task of \<^verbatim>\<open>start\<close>: one refresh per tick.\<close>

definition refresher ::
  "backend_source_config \<Rightarrow> interface_addr list io_result list \<Rightarrow> rotator \<Rightarrow> rotator" where
  "refresher c listings st = foldl (\<lambda>st listed. refresh_once listed c st) st listings"

section \<open>Candidates and health\<close>

definition is_unhealthy :: "rotator \<Rightarrow> ipv4_addr \<Rightarrow> instant \<Rightarrow> bool" where
  "is_unhealthy st ip now =
     (case rot_unhealthy st ip of Some until \<Rightarrow> until > now | None \<Rightarrow> False)"

definition candidates_at :: "ustr \<Rightarrow> instant \<Rightarrow> rotator \<Rightarrow> ipv4_addr list" where
  "candidates_at backend now st =
     (let len = length (rot_sources st) in
      if len = 0 then []
      else let start = (case map_of (rot_backends st) backend of
                          None \<Rightarrow> 0 | Some b \<Rightarrow> unat (advances b)) mod len;
               ordered = map (\<lambda>i. rot_sources st ! ((start + i) mod len)) [0 ..< len];
               healthy = filter (\<lambda>ip. \<not> is_unhealthy st ip now) ordered
           in if healthy = [] then ordered else healthy)"

definition mark_unhealthy_at :: "ipv4_addr \<Rightarrow> instant \<Rightarrow> rotator \<Rightarrow> rotator" where
  "mark_unhealthy_at source now st =
     st\<lparr>rot_unhealthy := (rot_unhealthy st)(source \<mapsto> now + UNHEALTHY_FOR)\<rparr>"

definition report_connect_failure ::
  "ipv4_addr \<Rightarrow> io_error \<Rightarrow> instant \<Rightarrow> rotator \<Rightarrow> bool \<times> rotator" where
  "report_connect_failure source err now st =
     (let source_fault = err \<in> {AddrNotAvailable, NetworkUnreachable, HostUnreachable, TimedOut,
                                PermissionDenied} in
      (source_fault, if source_fault then mark_unhealthy_at source now st else st))"

section \<open>Data slots\<close>

definition entry_or :: "'v \<Rightarrow> 'k \<Rightarrow> ('k \<times> 'v) list \<Rightarrow> 'v" where
  "entry_or d k al = (case map_of al k of Some v \<Rightarrow> v | None \<Rightarrow> d)"

text \<open>The first critical section of \<^verbatim>\<open>acquire_data_slot\<close>: the slot exists from now on.\<close>

definition slot_enter :: "ustr \<Rightarrow> usize \<Rightarrow> ipv4_addr \<Rightarrow> rotator \<Rightarrow> rotator" where
  "slot_enter backend cap source st =
     (let cap = max cap 1;
          b = entry_or default_backend_state backend (rot_backends st);
          b1 = (if map_of (slots b) source = None
                then b\<lparr>slots := AList.update source
                         \<lparr>permits = unat cap, slot_capacity = cap, started_total = 0,
                          slot_timeouts_total = 0\<rparr> (slots b)\<rparr>
                else b)
      in st\<lparr>rot_backends := AList.update backend b1 (rot_backends st)\<rparr>)"

definition modify_slot ::
  "ustr \<Rightarrow> ipv4_addr \<Rightarrow> (slot_state \<Rightarrow> slot_state) \<Rightarrow> rotator \<Rightarrow> rotator" where
  "modify_slot backend source f st =
     (case map_of (rot_backends st) backend of
        None \<Rightarrow> st
      | Some b \<Rightarrow>
          (case map_of (slots b) source of
             None \<Rightarrow> st
           | Some sl \<Rightarrow>
               st\<lparr>rot_backends := AList.update backend
                   (b\<lparr>slots := AList.update source (f sl) (slots b)\<rparr>) (rot_backends st)\<rparr>))"

text \<open>The wait for a permit gave up.\<close>

definition slot_elapsed :: "ustr \<Rightarrow> ipv4_addr \<Rightarrow> rotator \<Rightarrow> rotator" where
  "slot_elapsed backend source =
     modify_slot backend source
       (\<lambda>sl. sl\<lparr>slot_timeouts_total := sat_add (slot_timeouts_total sl) 1\<rparr>)"

text \<open>The last critical section: the transfer is counted and the rotation may advance.\<close>

definition slot_started :: "ustr \<Rightarrow> usize \<Rightarrow> ipv4_addr \<Rightarrow> rotator \<Rightarrow> rotator" where
  "slot_started backend cap source st =
     (let cap = max cap 1;
          b = entry_or default_backend_state backend (rot_backends st);
          b1 = (case map_of (slots b) source of
                  Some sl \<Rightarrow> b\<lparr>slots := AList.update source
                      (sl\<lparr>started_total := sat_add (started_total sl) 1\<rparr>) (slots b)\<rparr>
                | None \<Rightarrow> b);
          n = started_in_cycle b1 + 1;
          b2 = (if n \<ge> cap then b1\<lparr>started_in_cycle := 0, advances := advances b1 + 1\<rparr>
                else b1\<lparr>started_in_cycle := n\<rparr>)
      in st\<lparr>rot_backends := AList.update backend b2 (rot_backends st)\<rparr>)"

definition slot_of :: "ustr \<Rightarrow> ipv4_addr \<Rightarrow> rotator \<Rightarrow> slot_state option" where
  "slot_of backend source st =
     Option.bind (map_of (rot_backends st) backend) (\<lambda>b. map_of (slots b) source)"

text \<open>\<^verbatim>\<open>acquire_owned\<close> succeeds when a permit is free, and takes it.\<close>

definition slot_grant ::
  "ustr \<Rightarrow> usize \<Rightarrow> ipv4_addr \<Rightarrow> rotator \<Rightarrow> (ustr \<times> ipv4_addr) option \<times> rotator" where
  "slot_grant backend cap source st =
     (case slot_of backend source st of
        None \<Rightarrow> (None, st)
      | Some sl \<Rightarrow>
          if permits sl = 0 then (None, st)
          else (Some (backend, source),
                slot_started backend cap source
                  (modify_slot backend source (\<lambda>sl. sl\<lparr>permits := permits sl - 1\<rparr>) st)))"

text \<open>\<open>others\<close> is what the other sessions do to the rotator while this one waits.\<close>

definition acquire_data_slot ::
  "(rotator \<Rightarrow> rotator) \<Rightarrow> ustr \<Rightarrow> usize \<Rightarrow> ipv4_addr \<Rightarrow> rotator
    \<Rightarrow> (ustr \<times> ipv4_addr) option \<times> rotator" where
  "acquire_data_slot others backend cap source st =
     (case slot_grant backend cap source (others (slot_enter backend cap source st)) of
        (Some slot, st') \<Rightarrow> (Some slot, st')
      | (None, st') \<Rightarrow> (None, slot_elapsed backend source st'))"

text \<open>Dropping the \<^verbatim>\<open>DataSlot\<close> returns its permit to the semaphore.\<close>

definition drop_data_slot :: "ustr \<times> ipv4_addr \<Rightarrow> rotator \<Rightarrow> rotator" where
  "drop_data_slot slot =
     modify_slot (fst slot) (snd slot) (\<lambda>sl. sl\<lparr>permits := permits sl + 1\<rparr>)"

section \<open>Snapshot\<close>

definition snapshot_at :: "instant \<Rightarrow> rotator \<Rightarrow> rotator_snapshot" where
  "snapshot_at now st =
     \<lparr>snap_sources = map (\<lambda>s. \<lparr>health_source = s, health_unhealthy = is_unhealthy st s now\<rparr>)
        (rot_sources st),
      snap_transfers = sort_key (\<lambda>t. (stat_backend t, stat_source t))
        (concat (map (\<lambda>(backend, b). map (\<lambda>(source, sl).
           \<lparr>stat_backend = backend, stat_source = source, stat_capacity = slot_capacity sl,
            stat_active = unat (slot_capacity sl) - permits sl,
            stat_started_total = started_total sl,
            stat_slot_timeouts_total = slot_timeouts_total sl\<rparr>) (slots b)) (rot_backends st)))\<rparr>"

section \<open>Candidates\<close>

lemma rotation_indices: "xs \<noteq> [] \<Longrightarrow> map (\<lambda>i. xs ! ((k mod length xs + i) mod length xs)) [0 ..< length xs] = rotate k xs"
  by (rule nth_equalityI) (auto simp: nth_rotate mod_simps add.commute)

text \<open>How often the rotation has advanced for a backend.\<close>

definition turns :: "ustr \<Rightarrow> rotator \<Rightarrow> nat" where
  "turns backend st = (case map_of (rot_backends st) backend of None \<Rightarrow> 0 | Some b \<Rightarrow> unat (advances b))"

lemma candidates_rotation:
  "candidates_at backend now st =
     (let ordered = rotate (turns backend st) (rot_sources st);
          healthy = filter (\<lambda>ip. \<not> is_unhealthy st ip now) ordered
      in if healthy = [] then ordered else healthy)"
proof (cases "rot_sources st = []")
  case True
  then show ?thesis by (simp add: candidates_at_def)
next
  case False
  then show ?thesis
    using rotation_indices [of "rot_sources st" "turns backend st"]
    by (simp add: candidates_at_def turns_def Let_def)
qed

text \<open>C21: the addresses a new session tries are the source list rotated to the backend's current
  source, less those that recently failed; if all failed recently, all of them. So whenever there
  is a source there is a candidate, none is tried twice, and if any source is healthy then exactly
  the healthy sources are tried, starting from the current one.\<close>

theorem candidates_are_rotated_healthy_sources:
  assumes "distinct (rot_sources st)" and "rot_sources st \<noteq> []"
  shows "candidates_at backend now st \<noteq> [] \<and> distinct (candidates_at backend now st)
    \<and> candidates_at backend now st =
        (if \<forall>ip \<in> set (rot_sources st). is_unhealthy st ip now
         then rotate (turns backend st) (rot_sources st)
         else filter (\<lambda>ip. \<not> is_unhealthy st ip now) (rotate (turns backend st) (rot_sources st)))"
  using assms by (auto simp: candidates_rotation Let_def filter_empty_conv)

theorem candidates_are_rotated_healthy_sources_witness:
  "candidates_at [] 7 ((new_rotator [Ipv4 10 0 0 2, Ipv4 10 0 0 1])\<lparr>rot_unhealthy := [Ipv4 10 0 0 1 \<mapsto> 9]\<rparr>)
     = [Ipv4 10 0 0 2]"
proof -
  let ?st = "(new_rotator [Ipv4 10 0 0 2, Ipv4 10 0 0 1])\<lparr>rot_unhealthy := [Ipv4 10 0 0 1 \<mapsto> 9]\<rparr>"
  have s: "rot_sources ?st = [Ipv4 10 0 0 1, Ipv4 10 0 0 2]"
    by (simp add: new_rotator_def less_eq_ipv4_addr_def)
  have t: "turns [] ?st = 0" by (simp add: turns_def new_rotator_def)
  from candidates_are_rotated_healthy_sources [of ?st "[]" 7]
  show ?thesis unfolding s t by (simp add: is_unhealthy_def)
qed

section \<open>Health\<close>

text \<open>C22: a connect failure that is the source's fault (and no other failure) takes that source
  out of every backend's candidates for the next sixty seconds, as long as some other source is
  healthy, and makes it eligible again after them; no other source is affected.\<close>

theorem failed_source_is_left_out:
  assumes "report_connect_failure source err now st = (fault, st')" and "now \<le> later"
  shows "(fault \<longleftrightarrow> err \<in> {AddrNotAvailable, NetworkUnreachable, HostUnreachable, TimedOut, PermissionDenied})
    \<and> (fault \<longrightarrow> (is_unhealthy st' source later \<longleftrightarrow> later < now + 60 * 1000000000))
    \<and> (\<not> fault \<longrightarrow> st' = st)
    \<and> (\<forall>ip. ip \<noteq> source \<longrightarrow> is_unhealthy st' ip later = is_unhealthy st ip later)
    \<and> (fault \<longrightarrow> later < now + 60 * 1000000000 \<longrightarrow>
         (\<exists>ip \<in> set (rot_sources st'). \<not> is_unhealthy st' ip later) \<longrightarrow>
         source \<notin> set (candidates_at backend later st'))"
proof -
  have "fault \<longleftrightarrow> err \<in> {AddrNotAvailable, NetworkUnreachable, HostUnreachable, TimedOut, PermissionDenied}"
    and st': "st' = (if fault then mark_unhealthy_at source now st else st)"
    using assms(1) by (auto simp: report_connect_failure_def Let_def)
  moreover have "fault \<Longrightarrow> is_unhealthy st' ip later \<longleftrightarrow>
      (if ip = source then later < now + 60 * 1000000000 else is_unhealthy st ip later)" for ip
    by (simp add: st' is_unhealthy_def mark_unhealthy_at_def UNHEALTHY_FOR_def from_secs_def)
  moreover have "source \<notin> set (candidates_at backend later st')"
    if "is_unhealthy st' source later" "\<exists>ip \<in> set (rot_sources st'). \<not> is_unhealthy st' ip later"
    using that by (auto simp: candidates_rotation Let_def filter_empty_conv)
  ultimately show ?thesis by (cases fault) simp_all
qed

theorem failed_source_is_left_out_witness:
  "Ipv4 10 0 0 1 \<notin> set (candidates_at [] 5 (snd (report_connect_failure (Ipv4 10 0 0 1) TimedOut 4
     (new_rotator [Ipv4 10 0 0 1, Ipv4 10 0 0 2]))))"
proof -
  let ?st = "new_rotator [Ipv4 10 0 0 1, Ipv4 10 0 0 2]"
  let ?r = "report_connect_failure (Ipv4 10 0 0 1) TimedOut 4 ?st"
  have r: "?r = (True, snd ?r)" by (simp add: report_connect_failure_def)
  have s: "rot_sources (snd ?r) = [Ipv4 10 0 0 1, Ipv4 10 0 0 2]"
    by (simp add: report_connect_failure_def new_rotator_def mark_unhealthy_at_def less_eq_ipv4_addr_def)
  have "\<not> is_unhealthy (snd ?r) (Ipv4 10 0 0 2) 5"
    by (simp add: report_connect_failure_def new_rotator_def mark_unhealthy_at_def is_unhealthy_def)
  with failed_source_is_left_out [OF r, of 5 "[]"] show ?thesis unfolding s by simp
qed

text \<open>A new listing with nothing usable in it, or a failed one, changes nothing.\<close>

lemma refresh_once_sources:
  "rot_sources (refresh_once listed c st) =
     (case resolve_sources listed c of
        Inr sources \<Rightarrow> if sources = [] then rot_sources st else remdups_adj (sort sources)
      | Inl e \<Rightarrow> rot_sources st)"
  by (simp add: refresh_once_def set_sources_def Let_def split: sum.splits)

text \<open>Once the rotator has started, whatever the interface listings of later refreshes
  return (errors and empty listings included), it always has a source, and its sources are in
  order and without duplicates; it refuses to start only if the first listing fails or yields no
  usable address.\<close>

theorem rotator_never_loses_its_sources:
  "case start_rotator listed c of
     Inr st \<Rightarrow> rot_sources (refresher c listings st) \<noteq> [] \<and>
       sorted (rot_sources (refresher c listings st)) \<and>
       distinct (rot_sources (refresher c listings st)) \<and>
       candidates_at backend now (refresher c listings st) \<noteq> []
   | Inl e \<Rightarrow> (\<exists>err. listed = Inl err \<and> e = ListFailed err) \<or>
       (\<exists>addrs. listed = Inr addrs \<and> select_sources addrs c = [])"
proof (cases "start_rotator listed c")
  case (Inl e)
  then show ?thesis
    by (auto simp: start_rotator_def resolve_sources_def split: sum.splits if_splits)
next
  case (Inr st)
  have "rot_sources (refresher c listings st) \<noteq> [] \<and> sorted (rot_sources (refresher c listings st))
      \<and> distinct (rot_sources (refresher c listings st))"
  proof (induction listings rule: rev_induct)
    case Nil
    from Inr have "\<exists>sources. sources \<noteq> [] \<and> st = new_rotator sources"
      by (auto simp: start_rotator_def split: sum.splits if_splits)
    then show ?case
      by (auto simp: refresher_def new_rotator_def sorted_remdups_adj remdups_adj_sorted_distinct)
  next
    case (snoc l listings)
    then show ?case
      by (simp add: refresher_def refresh_once_sources sorted_remdups_adj remdups_adj_sorted_distinct
          split: sum.splits)
  qed
  moreover from this have "candidates_at backend now (refresher c listings st) \<noteq> []"
    by (simp add: candidates_rotation Let_def)
  ultimately show ?thesis using Inr by simp
qed

section \<open>Slots as a pool\<close>

lemma slot_of_modify:
  "slot_of b s (modify_slot b' s' f st) =
     (if b = b' \<and> s = s' then map_option f (slot_of b s st) else slot_of b s st)"
  by (auto simp: slot_of_def modify_slot_def update_conv' split: option.splits)

lemma slot_of_started:
  "slot_of b s (slot_started b' cap s' st) =
     (if b = b' \<and> s = s' then map_option (\<lambda>sl. sl\<lparr>started_total := sat_add (started_total sl) 1\<rparr>) (slot_of b s st)
      else slot_of b s st)"
  by (auto simp: slot_of_def slot_started_def entry_or_def default_backend_state_def Let_def update_conv'
      split: option.splits)

lemma slot_of_enter:
  "slot_of b s (slot_enter b' cap s' st) =
     (if b = b' \<and> s = s' \<and> slot_of b s st = None
      then Some \<lparr>permits = unat (max cap 1), slot_capacity = max cap 1, started_total = 0,
                 slot_timeouts_total = 0\<rparr>
      else slot_of b s st)"
  by (auto simp: slot_of_def slot_enter_def entry_or_def default_backend_state_def Let_def update_conv'
      split: option.splits)

lemmas slot_simps = slot_of_modify slot_of_started slot_of_enter slot_elapsed_def drop_data_slot_def

text \<open>
  The critical sections a session runs, as requests to the pool; only a grant hands out a slot.
  A run of the pool interleaves the sections of any number of sessions in any order.
\<close>

datatype slot_action =
    EnterSlot ustr usize ipv4_addr
  | GrantSlot ustr usize ipv4_addr
  | ElapseSlot ustr ipv4_addr

fun slot_act :: "rotator \<Rightarrow> slot_action \<Rightarrow> (ustr \<times> ipv4_addr) option \<times> rotator" where
  "slot_act st (EnterSlot b cap s) = (None, slot_enter b cap s st)"
| "slot_act st (GrantSlot b cap s) = slot_grant b cap s st"
| "slot_act st (ElapseSlot b s) = (None, slot_elapsed b s st)"

text \<open>Free permits and live slots add up to the capacity.\<close>

definition slots_inv :: "rotator \<Rightarrow> (ustr \<times> ipv4_addr) multiset \<Rightarrow> bool" where
  "slots_inv st gs \<longleftrightarrow>
     (\<forall>b s. (slot_of b s st = None \<longrightarrow> count gs (b, s) = 0) \<and>
        (\<forall>sl. slot_of b s st = Some sl \<longrightarrow> permits sl + count gs (b, s) = unat (slot_capacity sl)))"

lemma slots_invD:
  "slots_inv st gs \<Longrightarrow> slot_of b s st = Some sl \<Longrightarrow> permits sl + count gs (b, s) = unat (slot_capacity sl)"
  "slots_inv st gs \<Longrightarrow> slot_of b s st = None \<Longrightarrow> count gs (b, s) = 0"
  by (simp_all add: slots_inv_def)

lemma slot_grant_Some:
  assumes "slots_inv st gs" and "slot_grant b cap s st = (Some g, st')"
  shows "slots_inv st' (add_mset g gs)"
proof -
  from assms(2) obtain sl where sl: "slot_of b s st = Some sl" "0 < permits sl" and g: "g = (b, s)"
    and st': "st' = slot_started b cap s (modify_slot b s (\<lambda>sl. sl\<lparr>permits := permits sl - 1\<rparr>) st)"
    by (auto simp: slot_grant_def split: option.splits if_splits)
  have "permits sl - 1 + Suc (count gs (b, s)) = unat (slot_capacity sl)"
    using slots_invD(1) [OF assms(1) sl(1)] sl(2) by linarith
  with assms(1) sl g show ?thesis
    by (auto simp: slots_inv_def st' slot_simps)
qed

interpretation slot_pool: guard_pool slot_act drop_data_slot slots_inv
proof
  fix st st' :: rotator and gs r
  assume "slots_inv st gs" and "slot_act st r = (None, st')"
  then show "slots_inv st' gs"
    by (cases r) (auto simp: slots_inv_def slot_simps slot_grant_def split: option.splits if_splits)
next
  fix st st' :: rotator and gs r g
  assume "slots_inv st gs" and "slot_act st r = (Some g, st')"
  then show "slots_inv st' (add_mset g gs)" by (cases r) (auto dest: slot_grant_Some)
next
  fix st g gs
  assume i: "slots_inv st (add_mset g gs)"
  show "slots_inv (drop_data_slot g st) gs"
    unfolding slots_inv_def
  proof (intro allI)
    fix b s
    show "(slot_of b s (drop_data_slot g st) = None \<longrightarrow> count gs (b, s) = 0) \<and>
      (\<forall>sl. slot_of b s (drop_data_slot g st) = Some sl \<longrightarrow>
         permits sl + count gs (b, s) = unat (slot_capacity sl))"
      using slots_invD [OF i, of b s]
      by (cases g; cases "slot_of b s st"; cases "g = (b, s)") (auto simp: slot_simps)
  qed
qed

text \<open>C19: however sessions interleave entering the wait for a data slot, being granted one, giving
  up and dropping theirs, the transfers in flight from one source to one backend never exceed the
  slot's capacity, the free permits are exactly the capacity less the transfers in flight (so the
  number of active transfers the snapshot reports is the true one), and a slot is withheld exactly
  when the transfers in flight have reached the capacity.\<close>

theorem data_slots_capped:
  assumes "pool_run slot_act drop_data_slot (new_rotator sources, []) es = (st, gs)"
    and "slot_of backend source st = Some sl"
  shows "count (mset gs) (backend, source) \<le> unat (slot_capacity sl)
    \<and> unat (slot_capacity sl) - permits sl = count (mset gs) (backend, source)
    \<and> (fst (slot_grant backend cap source st) = None \<longleftrightarrow>
         count (mset gs) (backend, source) = unat (slot_capacity sl))"
proof -
  have "slots_inv (new_rotator sources) (mset [])"
    by (simp add: slots_inv_def new_rotator_def slot_of_def)
  then have "slots_inv st (mset gs)" by (rule slot_pool.run_inv [OF _ assms(1)])
  from slots_invD(1) [OF this assms(2)] show ?thesis
    by (auto simp: slot_grant_def assms(2))
qed

theorem data_slots_capped_witness:
  "let r = pool_run slot_act drop_data_slot (new_rotator [LOCALHOST], [])
         [Acquire (EnterSlot [] 1 LOCALHOST), Acquire (GrantSlot [] 1 LOCALHOST)] in
   snd r = [([], LOCALHOST)] \<and> fst (slot_grant [] 1 LOCALHOST (fst r)) = None"
proof -
  let ?es = "[Acquire (EnterSlot [] 1 LOCALHOST), Acquire (GrantSlot [] 1 LOCALHOST)]"
  let ?r = "pool_run slot_act drop_data_slot (new_rotator [LOCALHOST], []) ?es"
  let ?sl = "\<lparr>permits = 0, slot_capacity = 1, started_total = 1, slot_timeouts_total = 0\<rparr>"
  have gs: "snd ?r = [([], LOCALHOST)]"
    by (simp add: pool_run_def slot_grant_def slot_simps new_rotator_def slot_of_def [of _ _ "\<lparr>rot_sources = _, rot_unhealthy = _, rot_backends = _\<rparr>"])
  have sl: "slot_of [] LOCALHOST (fst ?r) = Some ?sl"
    by (simp add: pool_run_def slot_grant_def slot_simps new_rotator_def sat_add_def slot_of_def [of _ _ "\<lparr>rot_sources = _, rot_unhealthy = _, rot_backends = _\<rparr>"])
  have r: "?r = (fst ?r, snd ?r)" by simp
  from data_slots_capped [OF r sl, of 1] show ?thesis
    using gs by (simp add: Let_def)
qed

text \<open>With nobody else at work, claiming a slot is entering, then being granted one or giving up.\<close>

lemma acquire_data_slot_uncontended:
  "fst (acquire_data_slot id b cap s st) \<noteq> None \<longleftrightarrow>
     (case slot_of b s st of None \<Rightarrow> True | Some sl \<Rightarrow> 0 < permits sl)"
proof -
  have "(1 :: usize) \<le> max cap 1" by simp
  then have "0 < unat (max cap 1)" by (simp only: word_le_nat_alt unat_1)
  then show ?thesis
    by (auto simp: acquire_data_slot_def slot_grant_def slot_of_enter split: option.splits)
qed

section \<open>The rotation\<close>

text \<open>The rotation state of a backend, and its step when a transfer starts.\<close>

definition progress :: "ustr \<Rightarrow> rotator \<Rightarrow> usize \<times> usize" where
  "progress b st = (let bs = entry_or default_backend_state b (rot_backends st) in
     (advances bs, started_in_cycle bs))"

fun next_progress :: "usize \<Rightarrow> usize \<times> usize \<Rightarrow> usize \<times> usize" where
  "next_progress cap (a, n) = (if n + 1 \<ge> max cap 1 then (a + 1, 0) else (a, n + 1))"

lemma turns_progress: "turns b st = unat (fst (progress b st))"
  by (simp add: turns_def progress_def entry_or_def default_backend_state_def Let_def split: option.splits)

lemma progress_modify [simp]: "progress b (modify_slot b' s f st) = progress b st"
  by (auto simp: progress_def modify_slot_def entry_or_def update_conv' Let_def split: option.splits)

lemma progress_enter [simp]: "progress b (slot_enter b' cap s st) = progress b st"
  by (auto simp: progress_def slot_enter_def entry_or_def update_conv' Let_def split: option.splits)

lemma progress_started:
  "progress b (slot_started b' cap s st) =
     (if b = b' then next_progress cap (progress b st) else progress b st)"
  by (auto simp: progress_def slot_started_def entry_or_def update_conv' Let_def split: option.splits)

lemma progress_act:
  "progress b (snd (slot_act st r)) =
     (case r of GrantSlot b' cap s \<Rightarrow>
        if b = b' \<and> fst (slot_act st r) \<noteq> None then next_progress cap (progress b st) else progress b st
      | _ \<Rightarrow> progress b st)"
  by (cases r) (auto simp: slot_elapsed_def slot_grant_def progress_started split: option.splits)

text \<open>The transfers started in a run, in order.\<close>

fun step_log :: "rotator \<Rightarrow> slot_action pool_event \<Rightarrow> (ustr \<times> ipv4_addr) list" where
  "step_log st (Acquire r) = (case fst (slot_act st r) of Some g \<Rightarrow> [g] | None \<Rightarrow> [])"
| "step_log st (Drop i) = []"

fun started_log ::
  "rotator \<times> (ustr \<times> ipv4_addr) list \<Rightarrow> slot_action pool_event list \<Rightarrow> (ustr \<times> ipv4_addr) list" where
  "started_log x [] = []"
| "started_log x (e # es) =
     step_log (fst x) e @ started_log (pool_step slot_act drop_data_slot x e) es"

definition uses_capacity :: "ustr \<Rightarrow> usize \<Rightarrow> slot_action pool_event \<Rightarrow> bool" where
  "uses_capacity b cap e = (case e of Acquire (GrantSlot b' cap' s) \<Rightarrow> b' = b \<longrightarrow> cap' = cap | _ \<Rightarrow> True)"

definition at_cycle :: "usize \<Rightarrow> nat \<Rightarrow> usize \<times> usize \<Rightarrow> bool" where
  "at_cycle cap n x \<longleftrightarrow> unat (fst x) = n div unat (max cap 1) \<and> unat (snd x) = n mod unat (max cap 1)"

lemma at_cycle_next:
  assumes "at_cycle cap n x" and "Suc n < 18446744073709551616"
  shows "at_cycle cap (Suc n) (next_progress cap x)"
proof -
  let ?c = "unat (max cap 1)"
  obtain a k where x: "x = (a, k)" by fastforce
  have c: "0 < ?c" by (metis max.cobounded2 unat_gt_0 word_le_0_iff zero_neq_one)
  from assms(1) x have a: "unat a = n div ?c" and k: "unat k = n mod ?c" by (simp_all add: at_cycle_def)
  have "n mod ?c < ?c" using c by simp
  then have "Suc (unat k) < 18446744073709551616" if "Suc (unat k) \<noteq> ?c"
    using that k unat_usize_less [of "max cap 1"] by linarith
  moreover have "Suc (unat k) < 18446744073709551616" if "Suc (unat k) = ?c"
    using that unat_usize_less [of "max cap 1"] by linarith
  ultimately have k1: "unat (k + 1) = Suc (unat k)" by (simp add: unat_word_ariths(1)) fastforce
  have "n div ?c \<le> n" by simp
  then have "Suc (unat a) < 18446744073709551616" using a assms(2) by linarith
  then have a1: "unat (a + 1) = Suc (unat a)" by (simp add: unat_word_ariths(1))
  have wrap: "max cap 1 \<le> k + 1 \<longleftrightarrow> Suc (n mod ?c) = ?c"
    using k1 k \<open>n mod ?c < ?c\<close> by (auto simp: word_le_nat_alt)
  show ?thesis
  proof (cases "Suc (n mod ?c) = ?c")
    case True
    then have "Suc n mod ?c = 0" and "Suc n div ?c = Suc (n div ?c)"
      by (simp_all add: mod_Suc div_Suc)
    with True wrap a1 a x show ?thesis by (simp add: at_cycle_def)
  next
    case False
    then have "Suc n mod ?c = Suc (n mod ?c)" and "Suc n div ?c = n div ?c"
      by (simp_all add: mod_Suc div_Suc)
    with False wrap k1 k a x show ?thesis by (simp add: at_cycle_def)
  qed
qed

lemma first_step_at_cycle:
  assumes "at_cycle cap n (progress b st)" and "uses_capacity b cap e"
    and "pool_step slot_act drop_data_slot (st, gs) e = (st1, gs1)"
    and "n + length (filter (\<lambda>g. fst g = b) (step_log st e)) < 18446744073709551616"
  shows "at_cycle cap (n + length (filter (\<lambda>g. fst g = b) (step_log st e))) (progress b st1)"
proof (cases e)
  case (Drop i)
  with assms show ?thesis by (auto simp: drop_data_slot_def split: if_splits)
next
  case (Acquire r)
  have st1: "st1 = snd (slot_act st r)"
    using assms(3) Acquire by (auto split: prod.splits option.splits)
  show ?thesis
  proof (cases r)
    case (GrantSlot b' cap' s)
    have "fst (slot_act st r) = None \<or> fst (slot_act st r) = Some (b', s)"
      by (auto simp: GrantSlot slot_grant_def split: option.splits)
    with assms Acquire GrantSlot st1 progress_act [of b st r] at_cycle_next [OF assms(1)]
    show ?thesis by (auto simp: uses_capacity_def)
  qed (use assms Acquire st1 progress_act [of b st r] in auto)
qed

lemma run_at_cycle:
  assumes "at_cycle cap n (progress b st)" and "list_all (uses_capacity b cap) es"
    and "n + length (filter (\<lambda>g. fst g = b) (started_log (st, gs) es)) < 18446744073709551616"
  shows "at_cycle cap (n + length (filter (\<lambda>g. fst g = b) (started_log (st, gs) es)))
    (progress b (fst (pool_run slot_act drop_data_slot (st, gs) es)))"
  using assms
proof (induction es arbitrary: n st gs)
  case Nil
  then show ?case by (simp add: pool_run_def)
next
  case (Cons e es)
  obtain st1 gs1 where step: "pool_step slot_act drop_data_slot (st, gs) e = (st1, gs1)" by fastforce
  let ?k = "length (filter (\<lambda>g. fst g = b) (step_log st e))"
  have "at_cycle cap (n + ?k) (progress b st1)"
    using Cons.prems step first_step_at_cycle [of cap n b st e gs st1 gs1] by simp
  then show ?case
    using Cons.IH [of "n + ?k" st1 gs1] Cons.prems step by (simp add: pool_run_def add.assoc)
qed

text \<open>C20: in any interleaving of sessions, as long as the transfers to a backend are claimed with
  one capacity (its data-port count), the source handed to the backend's new sessions advances
  exactly once per full cycle of that many started transfers, and transfers to other backends do
  not move it.\<close>

theorem rotation_advances_per_cycle:
  assumes "list_all (uses_capacity backend cap) es"
    and "n = length (filter (\<lambda>g. fst g = backend) (started_log (new_rotator sources, []) es))"
    and "n < 2 ^ 64"
  shows "turns backend (fst (pool_run slot_act drop_data_slot (new_rotator sources, []) es)) =
    n div unat (max cap 1)"
proof -
  have "at_cycle cap 0 (progress backend (new_rotator sources))"
    by (simp add: at_cycle_def progress_def new_rotator_def entry_or_def default_backend_state_def)
  from run_at_cycle [OF this assms(1), of "[]"] assms(2,3)
  show ?thesis by (simp add: turns_progress at_cycle_def)
qed

theorem rotation_advances_per_cycle_witness:
  "turns [] (fst (pool_run slot_act drop_data_slot (new_rotator [LOCALHOST], [])
     [Acquire (EnterSlot [] 1 LOCALHOST), Acquire (GrantSlot [] 1 LOCALHOST)])) = 1"
proof -
  let ?es = "[Acquire (EnterSlot [] 1 LOCALHOST), Acquire (GrantSlot [] 1 LOCALHOST)]"
  have u: "list_all (uses_capacity [] 1) ?es" by (simp add: uses_capacity_def)
  have "started_log (new_rotator [LOCALHOST], []) ?es = [([], LOCALHOST)]"
    by (simp add: slot_grant_def slot_simps new_rotator_def
        slot_of_def [of _ _ "\<lparr>rot_sources = _, rot_unhealthy = _, rot_backends = _\<rparr>"])
  then have "1 = length (filter (\<lambda>g. fst g = []) (started_log (new_rotator [LOCALHOST], []) ?es))"
    by (simp only:) simp
  from rotation_advances_per_cycle [OF u this] show ?thesis by simp
qed

section \<open>Well-formedness\<close>

text \<open>
  The list of sources is in order, without duplicates and not empty; every backend has one entry and
  every source one slot in it, of a positive capacity. (In the code the backends and slots are keys of
  maps.)
\<close>

definition backend_wf :: "backend_state \<Rightarrow> bool" where
  "backend_wf bs \<longleftrightarrow> distinct (map fst (slots bs)) \<and> (\<forall>(s, sl) \<in> set (slots bs). 1 \<le> slot_capacity sl)"

definition rotator_wf :: "rotator \<Rightarrow> bool" where
  "rotator_wf st \<longleftrightarrow> rot_sources st \<noteq> [] \<and> sorted (rot_sources st) \<and> distinct (rot_sources st) \<and>
     distinct (map fst (rot_backends st)) \<and> (\<forall>(b, bs) \<in> set (rot_backends st). backend_wf bs)"

lemma in_update: "x \<in> set (AList.update k v al) \<Longrightarrow> x = (k, v) \<or> x \<in> set al"
  by (induction al) (auto split: if_splits)

lemma backend_wf_default: "backend_wf default_backend_state"
  by (simp add: backend_wf_def default_backend_state_def)

lemma backend_wf_entry: "rotator_wf st \<Longrightarrow> backend_wf (entry_or default_backend_state b (rot_backends st))"
  by (auto simp: entry_or_def rotator_wf_def backend_wf_default split: option.splits dest: map_of_SomeD)

lemma backend_wf_update:
  "backend_wf bs \<Longrightarrow> 1 \<le> slot_capacity sl \<Longrightarrow> backend_wf (bs\<lparr>slots := AList.update s sl (slots bs)\<rparr>)"
  by (auto simp: backend_wf_def distinct_update dest!: in_update)

lemma rotator_wf_update:
  "rotator_wf st \<Longrightarrow> backend_wf bs \<Longrightarrow> rotator_wf (st\<lparr>rot_backends := AList.update b bs (rot_backends st)\<rparr>)"
  by (auto simp: rotator_wf_def distinct_update dest!: in_update)

lemma backend_wf_capacity: "backend_wf bs \<Longrightarrow> map_of (slots bs) s = Some sl \<Longrightarrow> 1 \<le> slot_capacity sl"
  by (auto simp: backend_wf_def dest: map_of_SomeD)

lemma rotator_wf_enter: "rotator_wf st \<Longrightarrow> rotator_wf (slot_enter b cap s st)"
  using backend_wf_entry [of st b]
  by (auto simp: slot_enter_def Let_def intro!: rotator_wf_update backend_wf_update)

lemma rotator_wf_modify:
  assumes "rotator_wf st" and "\<And>sl. slot_capacity (f sl) = slot_capacity sl"
  shows "rotator_wf (modify_slot b s f st)"
proof -
  have "backend_wf bs" if "map_of (rot_backends st) b = Some bs" for bs
    using assms(1) map_of_SomeD [OF that] by (auto simp: rotator_wf_def)
  with assms show ?thesis
    by (auto simp: modify_slot_def split: option.splits intro!: rotator_wf_update backend_wf_update
        intro: backend_wf_capacity)
qed

lemma rotator_wf_started: "rotator_wf st \<Longrightarrow> rotator_wf (slot_started b cap s st)"
proof -
  let ?b = "entry_or default_backend_state b (rot_backends st)"
  assume st: "rotator_wf st"
  note b = backend_wf_entry [OF st, of b]
  have "backend_wf (case map_of (slots ?b) s of
      Some sl \<Rightarrow> ?b\<lparr>slots := AList.update s (sl\<lparr>started_total := sat_add (started_total sl) 1\<rparr>) (slots ?b)\<rparr> | None \<Rightarrow> ?b)"
    using b backend_wf_capacity [OF b, of s] by (auto split: option.splits intro: backend_wf_update)
  moreover have "backend_wf (bs\<lparr>started_in_cycle := n, advances := a\<rparr>) = backend_wf bs"
    "backend_wf (bs\<lparr>started_in_cycle := n\<rparr>) = backend_wf bs" for bs n a by (simp_all add: backend_wf_def)
  ultimately show ?thesis using st by (simp add: slot_started_def Let_def rotator_wf_update)
qed

lemma rotator_wf_slots:
  "rotator_wf st \<Longrightarrow> rotator_wf (snd (slot_grant b cap s st))" "rotator_wf st \<Longrightarrow> rotator_wf (slot_elapsed b s st)"
  "rotator_wf st \<Longrightarrow> rotator_wf (drop_data_slot g st)"
  by (auto simp: slot_grant_def slot_elapsed_def drop_data_slot_def rotator_wf_modify rotator_wf_started split: option.splits)

lemma rotator_wf_report: "rotator_wf st \<Longrightarrow> rotator_wf (snd (report_connect_failure s e now st))"
  by (simp add: report_connect_failure_def mark_unhealthy_at_def rotator_wf_def Let_def)

lemma rotator_wf_refresh: "rotator_wf st \<Longrightarrow> rotator_wf (refresh_once listed c st)"
  by (auto simp: rotator_wf_def refresh_once_sources sorted_remdups_adj remdups_adj_sorted_distinct split: sum.splits)
    (auto simp: refresh_once_def set_sources_def Let_def split: sum.splits if_splits)

lemma rotator_wf_new: "sources \<noteq> [] \<Longrightarrow> rotator_wf (new_rotator sources)"
  by (simp add: rotator_wf_def new_rotator_def sorted_remdups_adj remdups_adj_sorted_distinct)

lemma rotator_wf_start: "start_rotator listed c = Inr st \<Longrightarrow> rotator_wf st"
  by (auto simp: start_rotator_def rotator_wf_new split: sum.splits if_splits)

text \<open>Everything that is ever done to a rotator, by its own task and by the sessions.\<close>

datatype rotator_op =
    Refreshed "interface_addr list io_result"
  | Reported ipv4_addr io_error instant
  | Section slot_action
  | Dropped "ustr \<times> ipv4_addr"

fun rotator_apply :: "backend_source_config \<Rightarrow> rotator \<Rightarrow> rotator_op \<Rightarrow> rotator" where
  "rotator_apply c st (Refreshed listed) = refresh_once listed c st"
| "rotator_apply c st (Reported s e now) = snd (report_connect_failure s e now st)"
| "rotator_apply c st (Section a) = snd (slot_act st a)"
| "rotator_apply c st (Dropped g) = drop_data_slot g st"

lemma rotator_wf_act: "rotator_wf st \<Longrightarrow> rotator_wf (snd (slot_act st a))"
  by (cases a) (simp_all add: rotator_wf_enter rotator_wf_slots)

lemma rotator_wf_apply: "rotator_wf st \<Longrightarrow> rotator_wf (rotator_apply c st op)"
  by (cases op) (simp_all add: rotator_wf_refresh rotator_wf_report rotator_wf_act rotator_wf_slots)

lemma rotator_wf_run: "rotator_wf st \<Longrightarrow> rotator_wf (foldl (rotator_apply c) st ops)"
  by (induction ops arbitrary: st) (simp_all add: rotator_wf_apply)

abbreviation stat_key :: "transfer_stat \<Rightarrow> ustr \<times> ipv4_addr" where
  "stat_key t \<equiv> (stat_backend t, stat_source t)"

lemma distinct_concat_keys:
  "distinct (map fst al) \<Longrightarrow> (\<And>k v. (k, v) \<in> set al \<Longrightarrow> distinct (f v)) \<Longrightarrow>
     distinct (concat (map (\<lambda>(k, v). map (Pair k) (f v)) al))"
proof (induction al)
  case (Cons kv al)
  obtain k v where kv: "kv = (k, v)" by (cases kv)
  have "distinct (map (Pair k) (f v))" using Cons.prems(2) [of k v] kv by (simp add: distinct_map inj_on_def)
  moreover have "set (map (Pair k) (f v)) \<inter> set (concat (map (\<lambda>(k, v). map (Pair k) (f v)) al)) = {}"
    using Cons.prems(1) kv by force
  moreover have "distinct (concat (map (\<lambda>(k, v). map (Pair k) (f v)) al))"
    by (rule Cons.IH) (use Cons.prems in auto)
  ultimately show ?case using kv by simp
qed simp

lemma mset_map_sort: "mset (map f (sort_key f xs)) = mset (map f xs)"
  by simp

lemma snapshot_keys:
  assumes "rotator_wf st"
  shows "sorted (map stat_key (snap_transfers (snapshot_at now st)))"
    and "distinct (map stat_key (snap_transfers (snapshot_at now st)))"
    and "set (map stat_key (snap_transfers (snapshot_at now st))) = {(b, s). slot_of b s st \<noteq> None}"
proof -
  let ?keys = "concat (map (\<lambda>(b, bs). map (Pair b) (map fst (slots bs))) (rot_backends st))"
  let ?ts = "snap_transfers (snapshot_at now st)"
  show "sorted (map stat_key ?ts)" by (simp add: snapshot_at_def)
  have keys: "mset (map stat_key ?ts) = mset ?keys"
    by (simp only: snapshot_at_def rotator_snapshot.simps mset_map_sort)
      (simp only: map_concat map_map comp_def case_prod_unfold transfer_stat.simps)
  have "distinct ?keys"
    using assms by (intro distinct_concat_keys) (auto simp: rotator_wf_def backend_wf_def)
  then show "distinct (map stat_key ?ts)" using mset_eq_imp_distinct_iff [OF keys] by simp
  have "set ?keys = {(b, s). slot_of b s st \<noteq> None}"
    using assms by (force simp: slot_of_def rotator_wf_def backend_wf_def Option.bind_eq_None_conv map_of_eq_None_iff
        dest: map_of_SomeD)
  then show "set (map stat_key ?ts) = {(b, s). slot_of b s st \<noteq> None}"
    using mset_eq_setD [OF keys] by (simp only:)
qed

text \<open>C23: a rotator stays well formed under everything that is ever done to it, in any order:
  refreshes with any listing, reported failures, sessions entering the wait for a slot, being granted
  one, giving up and dropping theirs. It always has a source to offer, its sources are in strictly
  ascending order, every slot has room for at least one transfer, and what it reports to the metrics
  endpoint has exactly one entry per backend and source that ever had a slot, in ascending order.\<close>

theorem rotator_stays_well_formed:
  assumes "start_rotator listed c = Inr st0" and "st = foldl (rotator_apply c) st0 ops"
  shows "candidates_at backend now st \<noteq> []
    \<and> sorted (rot_sources st) \<and> distinct (rot_sources st)
    \<and> (\<forall>b s sl. slot_of b s st = Some sl \<longrightarrow> 1 \<le> slot_capacity sl)
    \<and> sorted (map stat_key (snap_transfers (snapshot_at now st)))
    \<and> distinct (map stat_key (snap_transfers (snapshot_at now st)))
    \<and> set (map stat_key (snap_transfers (snapshot_at now st))) = {(b, s). slot_of b s st \<noteq> None}"
proof -
  have wf: "rotator_wf st" unfolding assms(2) by (rule rotator_wf_run [OF rotator_wf_start [OF assms(1)]])
  have "1 \<le> slot_capacity sl" if "slot_of b s st = Some sl" for b s sl
    using that wf by (auto simp: slot_of_def rotator_wf_def backend_wf_def bind_eq_Some_conv dest!: map_of_SomeD)
  then show ?thesis
    using wf snapshot_keys [OF wf] by (simp add: rotator_wf_def candidates_rotation Let_def)
qed

definition one_interface :: backend_source_config where
  "one_interface = default_backend_source\<lparr>include_interfaces := [lit ''e'']\<rparr>"

lemma distinct_singleton_list: "distinct xs \<Longrightarrow> set xs = {x} \<Longrightarrow> xs = [x]"
  by (cases xs; cases "tl xs") auto

lemma one_interface_selected:
  "select_sources [\<lparr>interface_name = lit ''e'', interface_ip = Ipv4 10 0 0 1\<rparr>] one_interface = [Ipv4 10 0 0 1]"
proof -
  let ?a = "\<lparr>interface_name = lit ''e'', interface_ip = Ipv4 10 0 0 1\<rparr>"
  have "trim (lit ''e'') = lit ''e''" by (rule trim_id) (simp add: lit_def ch_def is_whitespace_def)
  then have "eligible one_interface ?a"
    by (simp add: eligible_def one_interface_def default_backend_source_def pattern_hits_def)
      (simp add: lit_def ch_def is_unspecified_def UNSPECIFIED_def)
  then have "set (select_sources [?a] one_interface) = {Ipv4 10 0 0 1}"
    by (subst set_select_sources) (auto simp: lit_def ch_def)
  moreover have "distinct (select_sources [?a] one_interface)"
    by (simp only: select_sources_def Let_def remdups_adj_sorted_distinct sorted_sort)
  ultimately show ?thesis by (rule distinct_singleton_list [rotated])
qed

text \<open>A session waits for a slot on the only source, and the interface goes away.\<close>

theorem rotator_stays_well_formed_witness:
  "let ip = Ipv4 10 0 0 1;
       st = foldl (rotator_apply one_interface) (new_rotator [ip]) [Section (EnterSlot [] 0 ip), Refreshed (Inr [])] in
   candidates_at [] 0 st \<noteq> [] \<and> map stat_key (snap_transfers (snapshot_at 0 st)) = [([], ip)]"
proof -
  let ?ip = "Ipv4 10 0 0 1" and ?c = one_interface
  let ?ops = "[Section (EnterSlot [] 0 ?ip), Refreshed (Inr [])]"
  let ?st = "foldl (rotator_apply ?c) (new_rotator [?ip]) ?ops"
  have start: "start_rotator (Inr [\<lparr>interface_name = lit ''e'', interface_ip = ?ip\<rparr>]) ?c = Inr (new_rotator [?ip])"
    by (simp add: start_rotator_def resolve_sources_def one_interface_selected)
  have st: "?st = slot_enter [] 0 ?ip (new_rotator [?ip])"
    by (simp add: refresh_once_def resolve_sources_def select_sources_def Let_def)
  have none: "slot_of b s (new_rotator [?ip]) = None" for b s by (simp add: slot_of_def new_rotator_def)
  have s: "{(b, s). slot_of b s ?st \<noteq> None} = {([], ?ip)}"
    unfolding st slot_of_enter none by auto
  note w = rotator_stays_well_formed [OF start refl, of "[]" 0 ?ops, unfolded s]
  then have "map stat_key (snap_transfers (snapshot_at 0 ?st)) = [([], ?ip)]"
    by (intro distinct_singleton_list) blast+
  with w show ?thesis unfolding Let_def by blast
qed

end
