(* ===== verification/Metrics.thy ===== *)
theory Metrics
  imports Source_Rotator
begin

text \<open>
  \<^verbatim>\<open>src/metrics.rs\<close>: the process-wide counters and gauges, the guards that keep the gauges
  honest, and their Prometheus text form. Counters saturate, gauges are updated with wrapping
  atomic adds. Proved: the gauges are exactly the numbers of live guards in any interleaving,
  every started upload is counted exactly once as completed, failed or still running, no total
  ever decreases, a label value can be read back from its escaped form, and no backend name can
  add or remove a line of the exposition.
\<close>

section \<open>State and operations\<close>

record metrics =
  sessions_active :: u64
  uploads_active :: u64
  sessions_total :: u64
  upload_bytes_total :: u64
  connections_rejected_total :: u64
  uploads_started_total :: u64
  uploads_completed_total :: u64
  uploads_failed_total :: u64
  backend_pasv_failures_total :: u64
  backend_data_connection_failures_total :: u64
  data_connections_rejected_total :: u64
  backend_timeouts_total :: u64
  session_idle_timeouts_total :: u64

definition new_metrics :: metrics where
  "new_metrics =
     \<lparr>sessions_active = 0, uploads_active = 0, sessions_total = 0, upload_bytes_total = 0,
      connections_rejected_total = 0, uploads_started_total = 0, uploads_completed_total = 0,
      uploads_failed_total = 0, backend_pasv_failures_total = 0,
      backend_data_connection_failures_total = 0, data_connections_rejected_total = 0,
      backend_timeouts_total = 0, session_idle_timeouts_total = 0\<rparr>"

definition session_started :: "metrics \<Rightarrow> metrics" where
  "session_started m =
     m\<lparr>sessions_total := sat_add (sessions_total m) 1, sessions_active := sessions_active m + 1\<rparr>"

definition drop_session_guard :: "metrics \<Rightarrow> metrics" where
  "drop_session_guard m = m\<lparr>sessions_active := sessions_active m - 1\<rparr>"

definition upload_started :: "metrics \<Rightarrow> metrics" where
  "upload_started m = m\<lparr>uploads_active := uploads_active m + 1\<rparr>"

definition drop_upload_guard :: "metrics \<Rightarrow> metrics" where
  "drop_upload_guard m = m\<lparr>uploads_active := uploads_active m - 1\<rparr>"

definition add_upload_bytes :: "u64 \<Rightarrow> metrics \<Rightarrow> metrics" where
  "add_upload_bytes n m = m\<lparr>upload_bytes_total := sat_add (upload_bytes_total m) n\<rparr>"

definition connection_rejected :: "metrics \<Rightarrow> metrics" where
  "connection_rejected m =
     m\<lparr>connections_rejected_total := sat_add (connections_rejected_total m) 1\<rparr>"

definition upload_attempted :: "metrics \<Rightarrow> metrics" where
  "upload_attempted m = m\<lparr>uploads_started_total := sat_add (uploads_started_total m) 1\<rparr>"

definition backend_pasv_failed :: "metrics \<Rightarrow> metrics" where
  "backend_pasv_failed m =
     m\<lparr>backend_pasv_failures_total := sat_add (backend_pasv_failures_total m) 1\<rparr>"

definition backend_data_connection_failed :: "metrics \<Rightarrow> metrics" where
  "backend_data_connection_failed m =
     m\<lparr>backend_data_connection_failures_total :=
         sat_add (backend_data_connection_failures_total m) 1\<rparr>"

definition data_connection_rejected :: "metrics \<Rightarrow> metrics" where
  "data_connection_rejected m =
     m\<lparr>data_connections_rejected_total := sat_add (data_connections_rejected_total m) 1\<rparr>"

definition session_idle_timed_out :: "metrics \<Rightarrow> metrics" where
  "session_idle_timed_out m =
     m\<lparr>session_idle_timeouts_total := sat_add (session_idle_timeouts_total m) 1\<rparr>"

definition observe_backend_io_error :: "io_error \<Rightarrow> metrics \<Rightarrow> metrics" where
  "observe_backend_io_error err m =
     (if err = TimedOut then m\<lparr>backend_timeouts_total := sat_add (backend_timeouts_total m) 1\<rparr>
      else m)"

text \<open>
  \<^verbatim>\<open>UploadAttempt\<close>: \<^verbatim>\<open>succeeded\<close> consumes the guard, which is then dropped with its flag set.
\<close>

definition drop_upload_attempt :: "bool \<Rightarrow> metrics \<Rightarrow> metrics" where
  "drop_upload_attempt succeeded m =
     (if \<not> succeeded then m\<lparr>uploads_failed_total := sat_add (uploads_failed_total m) 1\<rparr> else m)"

definition attempt_succeeded :: "metrics \<Rightarrow> metrics" where
  "attempt_succeeded m =
     drop_upload_attempt True
       (m\<lparr>uploads_completed_total := sat_add (uploads_completed_total m) 1\<rparr>)"

section \<open>Prometheus text\<close>

abbreviation nl :: ustr where "nl \<equiv> [10]"

definition escape_label_value :: "ustr \<Rightarrow> ustr" where
  "escape_label_value v =
     concat (map (\<lambda>c.
       if c = 92 then [92, 92]
       else if c = 34 then [92, 34]
       else if c = 10 then [92, ch CHR ''n'']
       else [c]) v)"

definition metric_block :: "string \<Rightarrow> string \<Rightarrow> string \<Rightarrow> nat \<Rightarrow> ustr" where
  "metric_block name help kind v =
     lit ''# HELP '' @ lit name @ lit '' '' @ lit help @ nl @
     lit ''# TYPE '' @ lit name @ lit '' '' @ lit kind @ nl @
     lit name @ lit '' '' @ show_nat v @ nl"

definition render_gateway_metrics :: "nat \<Rightarrow> nat \<Rightarrow> metrics \<Rightarrow> ustr" where
  "render_gateway_metrics ports_active ports_capacity m =
     metric_block ''ftp_gateway_sessions_active''
       ''Number of FTP control connections currently open.'' ''gauge'' (unat (sessions_active m)) @
     metric_block ''ftp_gateway_uploads_active''
       ''Number of STOR transfers currently in progress.'' ''gauge'' (unat (uploads_active m)) @
     metric_block ''ftp_gateway_pasv_ports_active''
       ''Number of PASV/EPSV data ports currently allocated.'' ''gauge'' ports_active @
     metric_block ''ftp_gateway_pasv_ports_capacity''
       ''Number of PASV/EPSV data ports in the configured range (capacity minus active is what is left).''
       ''gauge'' ports_capacity @
     metric_block ''ftp_gateway_sessions_total''
       ''Total number of FTP control connections accepted.'' ''counter'' (unat (sessions_total m)) @
     metric_block ''ftp_gateway_upload_bytes_total''
       ''Total bytes relayed from clients to a Backend across all completed STOR transfers.''
       ''counter'' (unat (upload_bytes_total m)) @
     metric_block ''ftp_gateway_connections_rejected_total''
       ''Total connections rejected by the per-IP connection limit.'' ''counter''
       (unat (connections_rejected_total m)) @
     metric_block ''ftp_gateway_uploads_started_total''
       ''Total STOR transfers that reached the Backend (both data connections up).'' ''counter''
       (unat (uploads_started_total m)) @
     metric_block ''ftp_gateway_uploads_completed_total''
       ''Total STOR transfers the Backend confirmed with a 2xx reply.'' ''counter''
       (unat (uploads_completed_total m)) @
     metric_block ''ftp_gateway_uploads_failed_total''
       ''Total started STOR transfers that did not complete.'' ''counter''
       (unat (uploads_failed_total m)) @
     metric_block ''ftp_gateway_backend_pasv_failures_total''
       ''Total times the Backend gave no usable reply to PASV.'' ''counter''
       (unat (backend_pasv_failures_total m)) @
     metric_block ''ftp_gateway_backend_data_connection_failures_total''
       ''Total failures to establish a data connection to the Backend (TCP connect or TLS handshake).''
       ''counter'' (unat (backend_data_connection_failures_total m)) @
     metric_block ''ftp_gateway_data_connections_rejected_total''
       ''Total client data connections closed for coming from a different IP address than the control connection.''
       ''counter'' (unat (data_connections_rejected_total m)) @
     metric_block ''ftp_gateway_backend_timeouts_total''
       ''Total timeouts waiting on or connecting to a Backend.'' ''counter''
       (unat (backend_timeouts_total m)) @
     metric_block ''ftp_gateway_session_idle_timeouts_total''
       ''Total control sessions closed for being idle too long.'' ''counter''
       (unat (session_idle_timeouts_total m))"

record transfer_series =
  series_name :: string
  series_kind :: string
  series_help :: string
  series_value :: "transfer_stat \<Rightarrow> nat"

definition transfer_series_list :: "transfer_series list" where
  "transfer_series_list =
     [\<lparr>series_name = ''ftp_gateway_backend_source_transfers_active'', series_kind = ''gauge'',
       series_help = ''Data transfers in flight from this source address to this backend.'',
       series_value = stat_active\<rparr>,
      \<lparr>series_name = ''ftp_gateway_backend_source_transfers_capacity'', series_kind = ''gauge'',
       series_help = ''Most data transfers this source address may have in flight to this backend (its passive_ports size).'',
       series_value = (\<lambda>s. unat (stat_capacity s))\<rparr>,
      \<lparr>series_name = ''ftp_gateway_backend_source_transfers_total'', series_kind = ''counter'',
       series_help = ''Total data transfers started from this source address to this backend.'',
       series_value = (\<lambda>s. unat (stat_started_total s))\<rparr>,
      \<lparr>series_name = ''ftp_gateway_backend_source_slot_timeouts_total'', series_kind = ''counter'',
       series_help = ''Total transfers that gave up waiting for a free slot on this source address (answered 425).'',
       series_value = (\<lambda>s. unat (stat_slot_timeouts_total s))\<rparr>]"

definition health_line :: "source_health \<Rightarrow> ustr" where
  "health_line h =
     lit ''ftp_gateway_backend_source_unhealthy{source='' @ [34] @ show_ipv4 (health_source h) @ [34] @
     lit ''} '' @ show_nat (if health_unhealthy h then 1 else 0) @ nl"

definition series_line :: "transfer_series \<Rightarrow> transfer_stat \<Rightarrow> ustr" where
  "series_line s t =
     lit (series_name s) @ lit ''{backend='' @ [34] @ escape_label_value (stat_backend t) @ [34] @
     lit '',source='' @ [34] @ show_ipv4 (stat_source t) @ [34] @ lit ''} '' @
     show_nat (series_value s t) @ nl"

definition render_rotation_metrics :: "rotator_snapshot \<Rightarrow> ustr" where
  "render_rotation_metrics rotation =
     lit ''# HELP ftp_gateway_backend_source_unhealthy 1 if the source address is currently left out of the rotation after failing to connect.'' @ nl @
     lit ''# TYPE ftp_gateway_backend_source_unhealthy gauge'' @ nl @
     concat (map health_line (snap_sources rotation)) @
     concat (map (\<lambda>s.
       lit ''# HELP '' @ lit (series_name s) @ lit '' '' @ lit (series_help s) @ nl @
       lit ''# TYPE '' @ lit (series_name s) @ lit '' '' @ lit (series_kind s) @ nl @
       concat (map (series_line s) (snap_transfers rotation))) transfer_series_list)"

definition render :: "nat \<Rightarrow> nat \<Rightarrow> rotator_snapshot option \<Rightarrow> metrics \<Rightarrow> ustr" where
  "render ports_active ports_capacity rotation m =
     render_gateway_metrics ports_active ports_capacity m @
     (case rotation of Some r \<Rightarrow> render_rotation_metrics r | None \<Rightarrow> [])"

section \<open>Guards and counters as a pool\<close>

datatype metric_guard = SessionGuard | UploadGuard | AttemptGuard bool

text \<open>
  What sessions do to the metrics. An upload attempt is requested together with the outcome it
  will have: its guard is released by \<^verbatim>\<open>succeeded\<close> or by being dropped.
\<close>

datatype metric_request =
    SessionStarted
  | UploadStarted
  | UploadAttempted bool
  | UploadBytes u64
  | ConnectionRejected
  | BackendPasvFailed
  | BackendDataConnectionFailed
  | DataConnectionRejected
  | SessionIdleTimedOut
  | BackendIoError io_error

fun metric_act :: "metrics \<Rightarrow> metric_request \<Rightarrow> metric_guard option \<times> metrics" where
  "metric_act m SessionStarted = (Some SessionGuard, session_started m)"
| "metric_act m UploadStarted = (Some UploadGuard, upload_started m)"
| "metric_act m (UploadAttempted ok) = (Some (AttemptGuard ok), upload_attempted m)"
| "metric_act m (UploadBytes n) = (None, add_upload_bytes n m)"
| "metric_act m ConnectionRejected = (None, connection_rejected m)"
| "metric_act m BackendPasvFailed = (None, backend_pasv_failed m)"
| "metric_act m BackendDataConnectionFailed = (None, backend_data_connection_failed m)"
| "metric_act m DataConnectionRejected = (None, data_connection_rejected m)"
| "metric_act m SessionIdleTimedOut = (None, session_idle_timed_out m)"
| "metric_act m (BackendIoError e) = (None, observe_backend_io_error e m)"

fun drop_metric_guard :: "metric_guard \<Rightarrow> metrics \<Rightarrow> metrics" where
  "drop_metric_guard SessionGuard m = drop_session_guard m"
| "drop_metric_guard UploadGuard m = drop_upload_guard m"
| "drop_metric_guard (AttemptGuard ok) m =
     (if ok then attempt_succeeded m else drop_upload_attempt False m)"

lemmas metric_defs = session_started_def drop_session_guard_def upload_started_def
  drop_upload_guard_def add_upload_bytes_def connection_rejected_def upload_attempted_def
  backend_pasv_failed_def backend_data_connection_failed_def data_connection_rejected_def
  session_idle_timed_out_def observe_backend_io_error_def drop_upload_attempt_def
  attempt_succeeded_def

text \<open>The attempts that are still running.\<close>

definition running :: "metric_guard multiset \<Rightarrow> nat" where
  "running gs = count gs (AttemptGuard True) + count gs (AttemptGuard False)"

definition metrics_inv :: "metrics \<Rightarrow> metric_guard multiset \<Rightarrow> bool" where
  "metrics_inv m gs \<longleftrightarrow>
     sessions_active m = of_nat (count gs SessionGuard) \<and>
     uploads_active m = of_nat (count gs UploadGuard) \<and>
     (uploads_started_total m = - 1 \<or>
      unat (uploads_started_total m) =
        unat (uploads_completed_total m) + unat (uploads_failed_total m) + running gs)"

lemma sat_add_1: "(w :: u64) \<noteq> - 1 \<Longrightarrow> unat (sat_add w 1) = Suc (unat w)"
proof -
  assume w: "w \<noteq> - 1"
  have "unat w \<noteq> 18446744073709551615"
    using w unat_max_word [where 'w = 64] by (auto simp: word_unat_eq_iff)
  moreover have "unat w < 18446744073709551616" by simp
  ultimately have "Suc (unat w) \<le> 18446744073709551615" by linarith
  then show ?thesis by (simp add: unat_sat_add)
qed

lemma unat_lt_not_max: "unat (w :: u64) < unat (v :: u64) \<Longrightarrow> w \<noteq> - 1"
  using word_le_nat_alt [of v "- 1"] by auto

lemma metrics_inv_release:
  assumes i: "metrics_inv m (add_mset g gs)"
  shows "metrics_inv (drop_metric_guard g m) gs"
proof (cases g)
  case (AttemptGuard ok)
  with i have acc: "uploads_started_total m = - 1 \<or> unat (uploads_started_total m) =
      unat (uploads_completed_total m) + unat (uploads_failed_total m) + Suc (running gs)"
    by (cases ok) (auto simp: metrics_inv_def running_def)
  have "unat (sat_add (uploads_completed_total m) 1) = Suc (unat (uploads_completed_total m)) \<and>
      unat (sat_add (uploads_failed_total m) 1) = Suc (unat (uploads_failed_total m))"
    if "uploads_started_total m \<noteq> - 1"
  proof -
    from acc that have "unat (uploads_completed_total m) < unat (uploads_started_total m)"
      and "unat (uploads_failed_total m) < unat (uploads_started_total m)" by linarith+
    then show ?thesis using unat_lt_not_max sat_add_1 by blast
  qed
  with i acc AttemptGuard show ?thesis
    by (cases "uploads_started_total m = - 1"; cases ok) (auto simp: metrics_inv_def metric_defs)
qed (use i in \<open>auto simp: metrics_inv_def metric_defs running_def\<close>)

interpretation metrics_pool: guard_pool metric_act drop_metric_guard metrics_inv
proof
  fix m m' :: metrics and gs r
  assume "metrics_inv m gs" and "metric_act m r = (None, m')"
  then show "metrics_inv m' gs"
    by (cases r) (auto simp: metrics_inv_def metric_defs split: if_splits)
next
  fix m m' :: metrics and gs r g
  assume "metrics_inv m gs" and "metric_act m r = (Some g, m')"
  then show "metrics_inv m' (add_mset g gs)"
    using sat_add_1 [of "uploads_started_total m"]
    by (cases "uploads_started_total m = - 1"; cases r)
      (auto simp: metrics_inv_def metric_defs running_def)
next
  fix m g gs
  assume "metrics_inv m (add_mset g gs)"
  then show "metrics_inv (drop_metric_guard g m) gs" by (rule metrics_inv_release)
qed

text \<open>Whatever any number of sessions do, in any order, the gauges of open sessions and of
  running transfers are the numbers of their live guards, and (until the 64-bit counter saturates)
  every upload that was started is counted exactly once, as completed, as failed, or as still
  running; when all guards are gone both gauges are back to zero and started is completed plus
  failed.\<close>

theorem metrics_account_for_every_guard:
  assumes "pool_run metric_act drop_metric_guard (new_metrics, []) es = (m, gs)"
  shows "sessions_active m = of_nat (count (mset gs) SessionGuard)
    \<and> uploads_active m = of_nat (count (mset gs) UploadGuard)
    \<and> (uploads_started_total m \<noteq> - 1 \<longrightarrow>
         unat (uploads_started_total m) = unat (uploads_completed_total m)
           + unat (uploads_failed_total m) + running (mset gs))"
proof -
  have "metrics_inv new_metrics (mset [])"
    by (simp add: metrics_inv_def new_metrics_def running_def)
  from metrics_pool.run_inv [OF this assms] show ?thesis by (auto simp: metrics_inv_def)
qed

theorem metrics_account_for_every_guard_witness:
  "let (m, gs) = pool_run metric_act drop_metric_guard (new_metrics, [])
         [Acquire SessionStarted, Acquire (UploadAttempted True), Drop 0] in
   sessions_active m = 1 \<and> uploads_completed_total m = 1 \<and> gs = [SessionGuard]"
proof -
  let ?m = "new_metrics\<lparr>sessions_total := 1, sessions_active := 1, uploads_started_total := 1,
     uploads_completed_total := 1\<rparr>"
  have run: "pool_run metric_act drop_metric_guard (new_metrics, [])
         [Acquire SessionStarted, Acquire (UploadAttempted True), Drop 0] = (?m, [SessionGuard])"
    by (simp add: pool_run_def metric_defs new_metrics_def sat_add_def)
  from metrics_account_for_every_guard [OF run] run show ?thesis by simp
qed

section \<open>Totals\<close>

definition totals :: "metrics \<Rightarrow> u64 list" where
  "totals m =
     [sessions_total m, upload_bytes_total m, connections_rejected_total m, uploads_started_total m,
      uploads_completed_total m, uploads_failed_total m, backend_pasv_failures_total m,
      backend_data_connection_failures_total m, data_connections_rejected_total m,
      backend_timeouts_total m, session_idle_timeouts_total m]"

lemma totals_act: "list_all2 (\<le>) (totals m) (totals (snd (metric_act m r)))"
  by (cases r) (simp_all add: totals_def metric_defs)

lemma totals_drop: "list_all2 (\<le>) (totals m) (totals (drop_metric_guard g m))"
  by (cases g) (simp_all add: totals_def metric_defs)

text \<open>No total ever decreases, wraps or resets, whatever sessions do and in whatever order.\<close>

theorem totals_never_decrease:
  "list_all2 (\<le>) (totals m) (totals (fst (pool_run metric_act drop_metric_guard (m, gs) es)))"
proof (induction es arbitrary: m gs)
  case Nil
  then show ?case by (simp add: pool_run_def list.rel_refl)
next
  case (Cons e es)
  obtain m1 gs1 where step: "pool_step metric_act drop_metric_guard (m, gs) e = (m1, gs1)" by fastforce
  have "list_all2 (\<le>) (totals m) (totals m1)"
  proof (cases e)
    case (Acquire r)
    with step totals_act [of m r] show ?thesis by (auto split: prod.splits option.splits)
  next
    case (Drop i)
    with step totals_drop [of m] show ?thesis by (auto simp: list.rel_refl split: if_splits)
  qed
  moreover have "list_all2 (\<le>) (totals m1)
      (totals (fst (pool_run metric_act drop_metric_guard (m, gs) (e # es))))"
    using Cons.IH [of m1 gs1] step by (simp add: pool_run_def)
  ultimately show ?case by (rule list_all2_trans [rotated]) (rule order_trans)
qed

section \<open>The exposition\<close>

text \<open>What a scraper does with a label value.\<close>

fun unescape_label_value :: "ustr \<Rightarrow> ustr" where
  "unescape_label_value [] = []"
| "unescape_label_value [c] = [c]"
| "unescape_label_value (c # d # s) =
     (if c = 92 then (if d = ch CHR ''n'' then 10 else d) # unescape_label_value s
      else c # unescape_label_value (d # s))"

lemma unescape_plain: "c \<noteq> 92 \<Longrightarrow> unescape_label_value (c # s) = c # unescape_label_value s"
  by (cases s) simp_all

lemma unescape_escape: "unescape_label_value (escape_label_value v) = v"
  by (induction v) (simp_all add: escape_label_value_def unescape_plain ch_def)

lemma escape_no_newline: "10 \<notin> set (escape_label_value v)"
  by (auto simp: escape_label_value_def ch_def)

definition newlines :: "ustr \<Rightarrow> nat" where
  "newlines s = length (filter (\<lambda>c. c = 10) s)"

lemma newlines_append [simp]: "newlines (s @ t) = newlines s + newlines t"
  by (simp add: newlines_def)

lemma newlines_0: "10 \<notin> set s \<Longrightarrow> newlines s = 0"
  by (auto simp: newlines_def filter_empty_conv)

lemma newlines_Cons [simp]: "newlines (c # s) = (if c = 10 then Suc (newlines s) else newlines s)"
  and newlines_Nil [simp]: "newlines [] = 0"
  by (simp_all add: newlines_def)

lemma ch_newline: "ch c = 10 \<longleftrightarrow> c = CHR 0x0A"
proof -
  have "(10 :: nat) = of_char (CHR 0x0A)" by simp
  then show ?thesis by (metis ch_def of_char_eq_iff)
qed

lemma newlines_lit [simp]: "list_all (\<lambda>c. c \<noteq> CHR 0x0A) s \<Longrightarrow> newlines (lit s) = 0"
  by (induction s) (simp_all add: lit_def ch_newline)

lemma newlines_show_nat [simp]: "newlines (show_nat n) = 0"
  by (rule newlines_0) (simp add: is_ascii_digit_def)

lemma newlines_show_ipv4 [simp]: "newlines (show_ipv4 ip) = 0"
  by (cases ip) (simp add: show_word_def)

lemma newlines_escaped [simp]: "newlines (escape_label_value v) = 0"
  by (simp add: newlines_0 escape_no_newline)

lemma newlines_block:
  "list_all (\<lambda>c. c \<noteq> CHR 0x0A) (name @ help @ kind) \<Longrightarrow> newlines (metric_block name help kind v) = 3"
  by (simp add: metric_block_def)

lemma newlines_concat: "newlines (concat xs) = sum_list (map newlines xs)"
  by (induction xs) simp_all

lemma newlines_rotation:
  "newlines (render_rotation_metrics r) = 10 + length (snap_sources r) + 4 * length (snap_transfers r)"
proof -
  have "newlines (health_line h) = 1" for h by (simp add: health_line_def)
  moreover have "s \<in> set transfer_series_list \<Longrightarrow> newlines (series_line s t) = 1" for s t
    by (auto simp: transfer_series_list_def series_line_def)
  ultimately show ?thesis
    by (simp add: render_rotation_metrics_def newlines_concat comp_def)
      (simp add: transfer_series_list_def newlines_concat comp_def sum_list_triv)
qed

text \<open>A backend name reads back from its escaped label value, and whatever the names and the
  values are, the exposition has exactly three lines per gateway metric and one line per source
  and per series and transfer: nothing a name contains can add or split a line.\<close>

theorem exposition_lines:
  "unescape_label_value (escape_label_value v) = v \<and>
   newlines (render ports_active ports_capacity rotation m) =
     45 + (case rotation of None \<Rightarrow> 0
           | Some r \<Rightarrow> 10 + length (snap_sources r) + 4 * length (snap_transfers r))"
proof -
  have "newlines (render_gateway_metrics ports_active ports_capacity m) = 45"
    by (simp add: render_gateway_metrics_def newlines_block)
  then show ?thesis
    by (simp add: render_def unescape_escape newlines_rotation split: option.splits)
qed

end
