(* ===== verification/Port_Manager.thy ===== *)
theory Port_Manager
  imports Gateway_Config
begin

text \<open>
  \<^verbatim>\<open>src/pasv/port_manager.rs\<close>: the pool of passive-mode data ports. The atomic counter is a
  32-bit word that wraps, the set behind the mutex a set of ports, and whether the operating
  system lets a port be bound is an oracle. The model has the allocation loop as one task runs
  it, and the same atomic steps as a transition system in which any number of tasks interleave
  between the reservation, the bind and the drop of a guard. Proved: an allocated port lies in
  the range, was free and was bound; as long as the counter does not wrap during the scan the
  answer \<open>None\<close> means that no port was available; no two live guards share a port under any
  interleaving; and a drained pool is empty again.
\<close>

section \<open>State and operations\<close>

record port_manager =
  in_use :: "u16 set"
  pm_range :: port_range
  next_offset :: u32

definition new_port_manager :: "port_range \<Rightarrow> port_manager" where
  "new_port_manager r = \<lparr>in_use = {}, pm_range = r, next_offset = 0\<rparr>"

definition range_size :: "port_range \<Rightarrow> u32" where
  "range_size r = ucast (range_end r) - ucast (range_start r) + 1"

text \<open>\<^verbatim>\<open>fetch_add\<close>: the port of the current offset, and the counter advanced (it wraps).\<close>

definition candidate_port :: "port_range \<Rightarrow> u32 \<Rightarrow> u16" where
  "candidate_port r off = range_start r + ucast (off mod range_size r)"

definition next_candidate :: "port_manager \<Rightarrow> u16 \<times> port_manager" where
  "next_candidate m =
     (candidate_port (pm_range m) (next_offset m), m\<lparr>next_offset := next_offset m + 1\<rparr>)"

definition reserve :: "u16 \<Rightarrow> port_manager \<Rightarrow> port_manager" where
  "reserve port m = m\<lparr>in_use := insert port (in_use m)\<rparr>"

definition unreserve :: "u16 \<Rightarrow> port_manager \<Rightarrow> port_manager" where
  "unreserve port m = m\<lparr>in_use := in_use m - {port}\<rparr>"

text \<open>The scan with \<open>n\<close> rounds left; \<open>can_bind\<close> is the outcome of \<^verbatim>\<open>TcpListener::bind\<close>.\<close>

fun allocate_loop :: "nat \<Rightarrow> (u16 \<Rightarrow> bool) \<Rightarrow> port_manager \<Rightarrow> u16 option \<times> port_manager" where
  "allocate_loop 0 can_bind m = (None, m)"
| "allocate_loop (Suc n) can_bind m =
     (let (port, m1) = next_candidate m in
      if port \<in> in_use m1 then allocate_loop n can_bind m1
      else let m2 = reserve port m1 in
           if can_bind port then (Some port, m2)
           else allocate_loop n can_bind (unreserve port m2))"

definition allocate :: "port_manager \<Rightarrow> (u16 \<Rightarrow> bool) \<Rightarrow> u16 option \<times> port_manager" where
  "allocate m can_bind = allocate_loop (unat (range_size (pm_range m))) can_bind m"

definition capacity :: "port_manager \<Rightarrow> usize" where
  "capacity m = range_len (pm_range m)"

definition active_count :: "port_manager \<Rightarrow> nat" where
  "active_count m = card (in_use m)"

text \<open>\<^verbatim>\<open>Drop for PasvPortGuard\<close>; a guard is identified with the port it holds.\<close>

definition drop_port_guard :: "u16 \<Rightarrow> port_manager \<Rightarrow> port_manager" where
  "drop_port_guard port m = unreserve port m"

section \<open>Interleaved tasks\<close>

text \<open>
  \<open>pending\<close> are the ports some task has reserved and is binding, \<open>live\<close> those whose guard
  exists. Each rule is one critical section of the source.
\<close>

record pool_tasks =
  manager :: port_manager
  pending :: "u16 list"
  live :: "u16 list"

inductive task_step :: "pool_tasks \<Rightarrow> pool_tasks \<Rightarrow> bool" where
  skip_taken: "next_candidate (manager s) = (port, m) \<Longrightarrow> port \<in> in_use m \<Longrightarrow>
     task_step s (s\<lparr>manager := m\<rparr>)"
| reserve_free: "next_candidate (manager s) = (port, m) \<Longrightarrow> port \<notin> in_use m \<Longrightarrow>
     task_step s (s\<lparr>manager := reserve port m, pending := port # pending s\<rparr>)"
| bind_ok: "port \<in> set (pending s) \<Longrightarrow>
     task_step s (s\<lparr>pending := remove1 port (pending s), live := port # live s\<rparr>)"
| bind_failed: "port \<in> set (pending s) \<Longrightarrow>
     task_step s (s\<lparr>manager := unreserve port (manager s), pending := remove1 port (pending s)\<rparr>)"
| drop_guard: "port \<in> set (live s) \<Longrightarrow>
     task_step s (s\<lparr>manager := drop_port_guard port (manager s), live := remove1 port (live s)\<rparr>)"

inductive_cases task_stepE: "task_step s t"

definition new_pool_tasks :: "port_range \<Rightarrow> pool_tasks" where
  "new_pool_tasks r = \<lparr>manager = new_port_manager r, pending = [], live = []\<rparr>"

section \<open>Arithmetic of the scan\<close>

definition in_range :: "port_range \<Rightarrow> u16 \<Rightarrow> bool" where
  "in_range r p \<longleftrightarrow> range_start r \<le> p \<and> p \<le> range_end r"

lemma unat_ucast_u16_u32 [simp]: "unat (ucast (w :: u16) :: u32) = unat w"
proof -
  have "unat w < 4294967296" using unat_u16_less [of w] by linarith
  then show ?thesis by (simp add: unsigned_ucast_eq take_bit_eq_mod)
qed

lemma unat_range_size:
  assumes "\<not> range_is_empty r"
  shows "unat (range_size r) = unat (range_end r) - unat (range_start r) + 1"
proof -
  have "unat (range_start r) \<le> unat (range_end r)"
    using assms by (simp add: range_is_empty_def word_le_nat_alt not_less)
  then have "unat (ucast (range_end r) - ucast (range_start r) :: u32)
      = unat (range_end r) - unat (range_start r)"
    by (subst unat_sub) (simp_all add: word_le_nat_alt)
  moreover have "Suc (unat (range_end r) - unat (range_start r)) < 4294967296"
    using unat_u16_less [of "range_end r"] by linarith
  ultimately show ?thesis by (simp add: range_size_def unat_word_ariths(1))
qed

lemma unat_candidate:
  assumes "\<not> range_is_empty r"
  shows "unat (candidate_port r off) = unat (range_start r) + unat off mod unat (range_size r)"
proof -
  let ?n = "unat (range_size r)" and ?k = "unat off mod unat (range_size r)"
  have n: "?n = unat (range_end r) - unat (range_start r) + 1" by (rule unat_range_size [OF assms])
  have le: "unat (range_start r) \<le> unat (range_end r)"
    using assms by (simp add: range_is_empty_def word_le_nat_alt not_less)
  have "?k < ?n" using n by simp
  then have bound: "unat (range_start r) + ?k < 65536"
    using n le unat_u16_less [of "range_end r"] by linarith
  then have "unat (ucast (off mod range_size r) :: u16) = ?k"
    by (simp add: unsigned_ucast_eq take_bit_eq_mod unat_mod)
  with bound show ?thesis by (simp add: candidate_port_def unat_word_ariths(1))
qed

lemma candidate_in_range: "\<not> range_is_empty r \<Longrightarrow> in_range r (candidate_port r off)"
proof -
  assume r: "\<not> range_is_empty r"
  have "unat off mod unat (range_size r) < unat (range_size r)"
    using unat_range_size [OF r] by simp
  moreover have "unat (range_start r) \<le> unat (range_end r)"
    using r by (simp add: range_is_empty_def word_le_nat_alt not_less)
  ultimately have "unat (range_start r) + unat off mod unat (range_size r) \<le> unat (range_end r)"
    using unat_range_size [OF r] by linarith
  then show ?thesis by (simp add: in_range_def word_le_nat_alt unat_candidate [OF r])
qed

text \<open>Consecutive offsets, as many as the range has ports, visit every port.\<close>

lemma consecutive_mod:
  fixes k n c :: nat
  assumes "k < n"
  shows "\<exists>i < n. (c + i) mod n = k"
proof (intro exI conjI)
  let ?i = "(n + k - c mod n) mod n"
  show "?i < n" using assms by simp
  have "(c + ?i) mod n = (c mod n + (n + k - c mod n)) mod n"
    by (simp add: mod_simps)
  also have "c mod n + (n + k - c mod n) = n + k"
    using mod_less_divisor [of n c] assms by linarith
  finally show "(c + ?i) mod n = k" using assms by simp
qed

lemma scan_visits:
  assumes r: "\<not> range_is_empty r" and p: "in_range r p"
    and nowrap: "unat off + unat (range_size r) \<le> 4294967296"
  shows "\<exists>i < unat (range_size r). candidate_port r (off + of_nat i) = p"
proof -
  let ?n = "unat (range_size r)" and ?k = "unat p - unat (range_start r)"
  have se: "unat (range_start r) \<le> unat p" "unat p \<le> unat (range_end r)"
    using p by (simp_all add: in_range_def word_le_nat_alt)
  then have "?k < ?n" using unat_range_size [OF r] by linarith
  then obtain i where i: "i < ?n" "(unat off + i) mod ?n = ?k"
    using consecutive_mod by blast
  have "i < 4294967296" and "unat off + i < 4294967296" using i(1) nowrap by linarith+
  then have "unat (off + of_nat i) = unat off + i"
    by (simp add: unat_word_ariths(1) unat_of_nat_u32)
  then have "unat (candidate_port r (off + of_nat i)) = unat (range_start r) + ?k"
    by (simp add: unat_candidate [OF r] i(2))
  with se have "candidate_port r (off + of_nat i) = p" by (simp add: word_unat_eq_iff)
  with i(1) show ?thesis by blast
qed

section \<open>The scan\<close>

lemmas allocate_loop_numeral [simp] =
  allocate_loop.simps(2) [of "pred_numeral k" for k, folded numeral_eq_Suc]

lemmas manager_simps = next_candidate_def reserve_def unreserve_def drop_port_guard_def

lemma next_candidate_frame:
  "next_candidate m = (port, m') \<Longrightarrow> in_use m' = in_use m \<and> pm_range m' = pm_range m
     \<and> next_offset m' = next_offset m + 1 \<and> port = candidate_port (pm_range m) (next_offset m)"
  by (auto simp: manager_simps)

lemma insert_remove_fresh [simp]: "x \<notin> A \<Longrightarrow> insert x A - {x} = A"
  by blast

lemma allocate_loop_Some:
  "allocate_loop n can_bind m = (Some p, m') \<Longrightarrow>
     p \<notin> in_use m \<and> can_bind p \<and> in_use m' = insert p (in_use m) \<and> pm_range m' = pm_range m
     \<and> (\<exists>off. p = candidate_port (pm_range m) off)"
  by (induction n can_bind m rule: allocate_loop.induct)
    (auto simp: manager_simps Let_def split: if_splits)

lemma allocate_loop_None:
  "allocate_loop n can_bind m = (None, m') \<Longrightarrow>
     in_use m' = in_use m \<and> pm_range m' = pm_range m
     \<and> (\<forall>i < n. let p = candidate_port (pm_range m) (next_offset m + of_nat i) in
          p \<in> in_use m \<or> \<not> can_bind p)"
proof (induction n can_bind m rule: allocate_loop.induct)
  case (2 n can_bind m)
  let ?p = "candidate_port (pm_range m) (next_offset m)"
  let ?m = "m\<lparr>next_offset := next_offset m + 1\<rparr>"
  have first: "?p \<in> in_use m \<or> \<not> can_bind ?p"
    and rest: "allocate_loop n can_bind ?m = (None, m')"
    using "2.prems" by (auto simp: manager_simps Let_def split: if_splits)
  have "in_use m' = in_use m \<and> pm_range m' = pm_range m \<and>
    (\<forall>i < n. let p = candidate_port (pm_range m) (next_offset m + 1 + of_nat i) in
       p \<in> in_use m \<or> \<not> can_bind p)"
  proof (cases "?p \<in> in_use m")
    case True
    with 2(1) [of "(?p, ?m)" ?p ?m] rest show ?thesis by (simp add: manager_simps)
  next
    case False
    with first have "\<not> can_bind ?p" by simp
    with False 2(2) [of "(?p, ?m)" ?p ?m "reserve ?p ?m"] rest show ?thesis
      by (simp add: manager_simps)
  qed
  with first show ?case
    by (auto simp: Let_def less_Suc_eq_0_disj add.assoc)
qed simp

lemma allocate_Some:
  assumes "\<not> range_is_empty (pm_range m)" and "allocate m can_bind = (Some p, m')"
  shows "in_range (pm_range m) p \<and> p \<notin> in_use m \<and> can_bind p \<and> in_use m' = insert p (in_use m)
    \<and> pm_range m' = pm_range m"
  using allocate_loop_Some [OF assms(2) [unfolded allocate_def]] candidate_in_range [OF assms(1)]
  by blast

lemma allocate_None:
  assumes "\<not> range_is_empty (pm_range m)" and "allocate m can_bind = (None, m')"
    and "unat (next_offset m) + unat (range_size (pm_range m)) \<le> 4294967296"
    and "in_range (pm_range m) p"
  shows "p \<in> in_use m \<or> \<not> can_bind p"
  using scan_visits [OF assms(1,4,3)] allocate_loop_None [of _ can_bind m m'] assms(2)
  by (auto simp: allocate_def Let_def)

text \<open>C17: an allocation that succeeds hands out a port of the configured range that no live
  guard holds and that could really be bound, and marks exactly that port as used. As long as
  the 32-bit counter does not wrap during the scan, an allocation fails only when every port of
  the range is taken or cannot be bound, and then it changes no reservation.\<close>

theorem allocate_correct:
  assumes "\<not> range_is_empty (pm_range m)"
    and "unat (next_offset m) + unat (range_size (pm_range m)) \<le> 4294967296"
  shows "case allocate m can_bind of
      (Some p, m') \<Rightarrow> in_range (pm_range m) p \<and> p \<notin> in_use m \<and> can_bind p
        \<and> in_use m' = insert p (in_use m)
    | (None, m') \<Rightarrow> in_use m' = in_use m \<and> (\<forall>p. in_range (pm_range m) p \<longrightarrow> p \<in> in_use m \<or> \<not> can_bind p)"
  using assms allocate_Some [OF assms(1)] allocate_None [OF assms(1) _ assms(2)]
    allocate_loop_None [of _ can_bind m]
  by (auto split: prod.split option.split simp: allocate_def)

theorem allocate_correct_witness:
  "\<not> range_is_empty \<lparr>range_start = 5, range_end = 7\<rparr> \<and>
   (case allocate (new_port_manager \<lparr>range_start = 5, range_end = 7\<rparr>) (\<lambda>p. p = 6) of
      (Some p, m') \<Rightarrow> p = 6 \<and> in_use m' = {6} | (None, m') \<Rightarrow> False)"
proof -
  let ?r = "\<lparr>range_start = 5, range_end = 7\<rparr> :: port_range"
  have r: "\<not> range_is_empty ?r" by (simp add: range_is_empty_def)
  have w: "unat (next_offset (new_port_manager ?r)) + unat (range_size ?r) \<le> 4294967296"
    by (simp add: new_port_manager_def range_size_def)
  have six: "in_range ?r 6" by (simp add: in_range_def)
  show ?thesis
    using r six allocate_correct [of "new_port_manager ?r" "\<lambda>p. p = 6"] w
    by (auto simp: new_port_manager_def split: prod.splits option.splits)
qed

text \<open>
  The counter is incremented per probe and wraps at $2^{32}$, which is no multiple of most range
  sizes: a scan that crosses the wrap visits one port twice and misses another one, and answers
  \<open>None\<close> although the missed port is free.
\<close>

lemma wrapped_counter_misses_a_free_port:
  "let m = \<lparr>in_use = {5, 6}, pm_range = \<lparr>range_start = 5, range_end = 7\<rparr>, next_offset = 4294967295\<rparr> in
   7 \<notin> in_use m \<and> in_range (pm_range m) 7 \<and> fst (allocate m (\<lambda>_. True)) = None"
proof -
  have "unat (range_size \<lparr>range_start = 5, range_end = 7\<rparr>) = Suc (Suc (Suc 0))"
    by (simp add: unat_range_size range_is_empty_def)
  moreover have "range_size \<lparr>range_start = 5, range_end = 7\<rparr> = 3" by (simp add: range_size_def)
  ultimately show ?thesis
    by (simp add: allocate_def manager_simps candidate_port_def in_range_def)
qed

section \<open>The pool contract\<close>

text \<open>The ports in use are exactly those of the live guards, each held once and in the range.\<close>

definition port_pool_inv :: "port_manager \<Rightarrow> u16 multiset \<Rightarrow> bool" where
  "port_pool_inv m gs \<longleftrightarrow> \<not> range_is_empty (pm_range m) \<and> in_use m = set_mset gs \<and>
     (\<forall>p. count gs p \<le> 1) \<and> (\<forall>p \<in># gs. in_range (pm_range m) p)"

interpretation port_pool: guard_pool allocate drop_port_guard port_pool_inv
proof
  fix m gs can_bind m'
  assume "port_pool_inv m gs" and "allocate m can_bind = (None, m')"
  then show "port_pool_inv m' gs"
    using allocate_loop_None [of _ can_bind m m'] by (simp add: port_pool_inv_def allocate_def)
next
  fix m gs can_bind g m'
  assume i: "port_pool_inv m gs" and "allocate m can_bind = (Some g, m')"
  then have "in_range (pm_range m) g \<and> g \<notin> in_use m \<and> in_use m' = insert g (in_use m)
      \<and> pm_range m' = pm_range m"
    using allocate_Some [of m can_bind g m'] by (simp add: port_pool_inv_def)
  with i show "port_pool_inv m' (add_mset g gs)"
    by (auto simp: port_pool_inv_def not_in_iff)
next
  fix m g gs
  assume i: "port_pool_inv m (add_mset g gs)"
  then have "count (add_mset g gs) p \<le> 1" for p by (simp add: port_pool_inv_def)
  from this [of g] have "count gs g = 0" by simp
  moreover have "\<forall>p. count gs p \<le> 1"
    by (metis \<open>\<And>p. count (add_mset g gs) p \<le> 1\<close> count_add_mset le_SucI Suc_le_mono le_trans
        le_add2 plus_1_eq_Suc)
  ultimately show "port_pool_inv (drop_port_guard g m) gs" using i
    by (auto simp: port_pool_inv_def manager_simps not_in_iff)
qed

text \<open>After any sequence of allocations (whatever the operating system lets the gateway bind)
  and guard drops, the ports in use are exactly the ports of the guards still alive, no two of
  which share a port; their number is what \<^verbatim>\<open>active_count\<close> reports, and once every guard is
  dropped nothing stays reserved.\<close>

theorem port_pool_tracks_guards:
  assumes "\<not> range_is_empty r"
    and "pool_run allocate drop_port_guard (new_port_manager r, []) es = (m, gs)"
  shows "in_use m = set gs \<and> distinct gs \<and> active_count m = length gs \<and> (gs = [] \<longrightarrow> in_use m = {})"
proof -
  have "port_pool_inv (new_port_manager r) (mset [])"
    using assms(1) by (simp add: port_pool_inv_def new_port_manager_def)
  then have i: "port_pool_inv m (mset gs)" by (rule port_pool.run_inv [OF _ assms(2)])
  then have "distinct gs"
    by (simp add: port_pool_inv_def distinct_count_atmost_1 count_mset le_Suc_eq)
      (metis One_nat_def count_list_0_iff)
  with i show ?thesis by (simp add: port_pool_inv_def active_count_def distinct_card)
qed

theorem port_pool_tracks_guards_witness:
  "fst (pool_run allocate drop_port_guard (new_port_manager \<lparr>range_start = 5, range_end = 6\<rparr>, [])
     [Acquire (\<lambda>_. True), Acquire (\<lambda>_. True), Drop 1]) =
   \<lparr>in_use = {6}, pm_range = \<lparr>range_start = 5, range_end = 6\<rparr>, next_offset = 2\<rparr>
   \<and> active_count \<lparr>in_use = {6}, pm_range = \<lparr>range_start = 5, range_end = 6\<rparr>, next_offset = 2\<rparr> = 1"
proof -
  let ?r = "\<lparr>range_start = 5, range_end = 6\<rparr> :: port_range"
  let ?m = "\<lparr>in_use = {6}, pm_range = ?r, next_offset = 2\<rparr>"
  have r: "\<not> range_is_empty ?r" by (simp add: range_is_empty_def)
  have size: "range_size ?r = 2" "unat (2 :: u32) = Suc (Suc 0)"
    by (simp_all add: range_size_def)
  have run: "pool_run allocate drop_port_guard (new_port_manager ?r, [])
      [Acquire (\<lambda>_. True), Acquire (\<lambda>_. True), Drop 1] = (?m, [6])"
    by (auto simp: pool_run_def allocate_def size manager_simps candidate_port_def
        new_port_manager_def)
  show ?thesis using port_pool_tracks_guards [OF r run] run by simp
qed

section \<open>Interleavings\<close>

definition tasks_inv :: "port_range \<Rightarrow> pool_tasks \<Rightarrow> bool" where
  "tasks_inv r s \<longleftrightarrow> pm_range (manager s) = r \<and> distinct (pending s @ live s) \<and>
     in_use (manager s) = set (pending s @ live s) \<and> (\<forall>p \<in> set (pending s @ live s). in_range r p)"

lemma task_step_inv:
  assumes "task_step s t" and "tasks_inv r s" and "\<not> range_is_empty r"
  shows "tasks_inv r t"
  using assms
proof (induction rule: task_step.induct)
  case (reserve_free s port m)
  then have "in_range r port"
    using candidate_in_range [OF reserve_free.prems(2)] next_candidate_frame
    by (metis tasks_inv_def)
  with reserve_free show ?case
    using next_candidate_frame [OF reserve_free.hyps(1)] by (auto simp: tasks_inv_def reserve_def)
next
  case (skip_taken s port m)
  then show ?case
    using next_candidate_frame [OF skip_taken.hyps(1)] by (auto simp: tasks_inv_def)
qed (auto simp: tasks_inv_def manager_simps dest: in_set_remove1)

text \<open>C13: however the tasks of concurrent sessions interleave between advancing the counter,
  reserving a port, binding it, failing to bind it and dropping a guard, every live guard's port
  lies in the range, no port is held by two guards, and no port stays reserved that no task
  holds.\<close>

theorem concurrent_ports_exclusive:
  assumes "\<not> range_is_empty r" and "task_step\<^sup>*\<^sup>* (new_pool_tasks r) s"
  shows "distinct (live s) \<and> (\<forall>p \<in> set (live s). in_range r p)
    \<and> in_use (manager s) = set (pending s) \<union> set (live s)"
proof -
  have "tasks_inv r s"
    using assms(2)
  proof (induction rule: rtranclp_induct)
    case base
    show ?case by (simp add: tasks_inv_def new_pool_tasks_def new_port_manager_def)
  next
    case (step s t)
    then show ?case using task_step_inv assms(1) by blast
  qed
  then show ?thesis by (auto simp: tasks_inv_def)
qed

theorem concurrent_ports_exclusive_witness:
  "task_step\<^sup>*\<^sup>* (new_pool_tasks \<lparr>range_start = 5, range_end = 6\<rparr>)
     \<lparr>manager = \<lparr>in_use = {5}, pm_range = \<lparr>range_start = 5, range_end = 6\<rparr>, next_offset = 1\<rparr>,
      pending = [], live = [5]\<rparr>
   \<and> distinct [5 :: u16]"
proof -
  let ?r = "\<lparr>range_start = 5, range_end = 6\<rparr> :: port_range"
  let ?m = "\<lparr>in_use = {5}, pm_range = ?r, next_offset = 1\<rparr> :: port_manager"
  let ?s = "\<lparr>manager = ?m, pending = [5], live = []\<rparr>" and ?t = "\<lparr>manager = ?m, pending = [], live = [5]\<rparr>"
  have "task_step (new_pool_tasks ?r) ?s"
    using task_step.reserve_free [of "new_pool_tasks ?r" 5 "new_port_manager ?r\<lparr>next_offset := 1\<rparr>"]
    by (simp add: new_pool_tasks_def new_port_manager_def manager_simps candidate_port_def)
  moreover have "task_step ?s ?t" using task_step.bind_ok [of 5 ?s] by simp
  ultimately have run: "task_step\<^sup>*\<^sup>* (new_pool_tasks ?r) ?t" 
    by (meson converse_rtranclp_into_rtranclp r_into_rtranclp)
  have "\<not> range_is_empty ?r" by (simp add: range_is_empty_def)
  from concurrent_ports_exclusive [OF this run] run show ?thesis by simp
qed

end
