(* ===== verification/Ftp_Command.thy ===== *)
theory Ftp_Command
  imports Rust_Strings
begin

text \<open>
  \<^verbatim>\<open>src/protocol/command.rs\<close>: the commands a client may send, how a control line is
  parsed into one, the check for an embedded line break, and the text that is logged for a
  command. Proved: the log text never contains a control character and never depends on a
  password, a rendered command parses back, the verb is matched without regard to case, and
  exactly the twelve supported verbs are recognised.
\<close>

section \<open>Model\<close>

definition escape_control_chars :: "ustr \<Rightarrow> ustr" where
  "escape_control_chars input =
     (if \<not> list_ex is_control input then input
      else concat (map (\<lambda>c. if is_control c then escape_default c else [c]) input))"

definition has_embedded_line_break :: "ustr \<Rightarrow> bool" where
  "has_embedded_line_break body \<longleftrightarrow> 13 \<in> set body \<or> 10 \<in> set body"

datatype ftp_command =
    User ustr
  | Pass ustr
  | Syst
  | Type ustr
  | Pwd
  | Cwd ustr
  | Pasv
  | Epsv
  | Stor ustr
  | Mkd ustr
  | Quit
  | Noop
  | Unknown ustr

definition split_verb :: "ustr \<Rightarrow> ustr \<times> ustr" where
  "split_verb line =
     (case split_once (ch CHR '' '') line of
        Some (verb, rest) \<Rightarrow> (verb, trim rest)
      | None \<Rightarrow> (line, []))"

definition match_verb :: "ustr \<Rightarrow> ustr \<Rightarrow> ftp_command" where
  "match_verb v rest =
     (if v = lit ''USER'' then User rest
      else if v = lit ''PASS'' then Pass rest
      else if v = lit ''SYST'' then Syst
      else if v = lit ''TYPE'' then Type rest
      else if v = lit ''PWD'' then Pwd
      else if v = lit ''CWD'' then Cwd rest
      else if v = lit ''PASV'' then Pasv
      else if v = lit ''EPSV'' then Epsv
      else if v = lit ''STOR'' then Stor rest
      else if v = lit ''MKD'' then Mkd rest
      else if v = lit ''QUIT'' then Quit
      else if v = lit ''NOOP'' then Noop
      else Unknown v)"

definition parse_command :: "ustr \<Rightarrow> ftp_command" where
  "parse_command line =
     (case split_verb (trim line) of
        (verb, rest) \<Rightarrow> match_verb (to_ascii_uppercase verb) rest)"

fun as_log_str :: "ftp_command \<Rightarrow> ustr" where
  "as_log_str (User arg) = lit ''USER '' @ escape_control_chars arg"
| "as_log_str (Pass _) = lit ''PASS <redacted>''"
| "as_log_str Syst = lit ''SYST''"
| "as_log_str (Type arg) = lit ''TYPE '' @ escape_control_chars arg"
| "as_log_str Pwd = lit ''PWD''"
| "as_log_str (Cwd arg) = lit ''CWD '' @ escape_control_chars arg"
| "as_log_str Pasv = lit ''PASV''"
| "as_log_str Epsv = lit ''EPSV''"
| "as_log_str (Stor arg) = lit ''STOR '' @ escape_control_chars arg"
| "as_log_str (Mkd arg) = lit ''MKD '' @ escape_control_chars arg"
| "as_log_str Quit = lit ''QUIT''"
| "as_log_str Noop = lit ''NOOP''"
| "as_log_str (Unknown verb) = lit ''UNKNOWN '' @ escape_control_chars verb"

section \<open>Specification\<close>

text \<open>The verbs a client may use, and the wire form of a command with its verb in upper case.\<close>

definition supported_verbs :: "ustr list" where
  "supported_verbs =
     map lit [''USER'', ''PASS'', ''SYST'', ''TYPE'', ''PWD'', ''CWD'', ''PASV'', ''EPSV'',
              ''STOR'', ''MKD'', ''QUIT'', ''NOOP'']"

fun wire_form :: "ftp_command \<Rightarrow> ustr" where
  "wire_form (User arg) = lit ''USER '' @ arg"
| "wire_form (Pass arg) = lit ''PASS '' @ arg"
| "wire_form Syst = lit ''SYST''"
| "wire_form (Type arg) = lit ''TYPE '' @ arg"
| "wire_form Pwd = lit ''PWD''"
| "wire_form (Cwd arg) = lit ''CWD '' @ arg"
| "wire_form Pasv = lit ''PASV''"
| "wire_form Epsv = lit ''EPSV''"
| "wire_form (Stor arg) = lit ''STOR '' @ arg"
| "wire_form (Mkd arg) = lit ''MKD '' @ arg"
| "wire_form Quit = lit ''QUIT''"
| "wire_form Noop = lit ''NOOP''"
| "wire_form (Unknown verb) = verb"

text \<open>
  The commands that have a wire form of their own: an argument without surrounding blanks,
  and no unknown verb (its argument is not kept).
\<close>

fun canonical :: "ftp_command \<Rightarrow> bool" where
  "canonical (User arg) = (trim arg = arg)"
| "canonical (Pass arg) = (trim arg = arg)"
| "canonical (Type arg) = (trim arg = arg)"
| "canonical (Cwd arg) = (trim arg = arg)"
| "canonical (Stor arg) = (trim arg = arg)"
| "canonical (Mkd arg) = (trim arg = arg)"
| "canonical (Unknown _) = False"
| "canonical _ = True"

section \<open>Logging\<close>

lemma hex_digit_printable: "d < 16 \<Longrightarrow> \<not> is_control (hex_digit d)"
  by (auto simp: hex_digit_def is_control_def)

lemma show_hex_printable: "c \<in> set (show_hex n) \<Longrightarrow> \<not> is_control c"
proof (induction n rule: show_hex.induct)
  case (1 n)
  then show ?case
    by (subst (asm) show_hex.simps) (auto simp: hex_digit_printable split: if_splits)
qed

lemma escape_default_printable: "x \<in> set (escape_default c) \<Longrightarrow> \<not> is_control x"
  by (auto simp: escape_default_def lit_def ch_def is_control_def split: if_splits
      dest: show_hex_printable [unfolded is_control_def])

lemma escape_control_chars_printable: "x \<in> set (escape_control_chars s) \<Longrightarrow> \<not> is_control x"
  by (auto simp: escape_control_chars_def list_ex_iff dest: escape_default_printable
      split: if_splits)

lemma escape_control_chars_plain: "(\<forall>c \<in> set s. \<not> is_control c) \<Longrightarrow> escape_control_chars s = s"
  by (auto simp: escape_control_chars_def list_ex_iff)

section \<open>Parsing\<close>

lemma lit_verb_facts:
  "v \<in> set supported_verbs \<Longrightarrow> v \<noteq> [] \<and> (\<forall>c \<in> set v. 65 \<le> c \<and> c \<le> 90)"
  by (auto simp: supported_verbs_def lit_def ch_def)

lemma supported_verb_plain:
  assumes "v \<in> set supported_verbs"
  shows "v \<noteq> []" "\<forall>c \<in> set v. \<not> is_whitespace c" "to_ascii_uppercase v = v"
proof -
  note facts = lit_verb_facts [OF assms]
  then show "v \<noteq> []" "\<forall>c \<in> set v. \<not> is_whitespace c" by (auto simp: is_whitespace_def)
  from facts show "to_ascii_uppercase v = v"
    by (intro map_idI) (auto simp: ascii_upper_def)
qed

lemma match_verb_Unknown: "(\<exists>w. match_verb v rest = Unknown w) \<longleftrightarrow> v \<notin> set supported_verbs"
  by (simp add: match_verb_def supported_verbs_def)

lemma trim_word_arg:
  assumes "v \<noteq> []" and "\<forall>c \<in> set v. \<not> is_whitespace c"
  shows "trim (v @ x) =
     (if \<forall>c \<in> set x. is_whitespace c then v else v @ trim_end_matches is_whitespace x)"
proof -
  have "trim_start_matches is_whitespace (v @ x) = v @ x"
    using assms by (simp add: trim_start_matches_def dropWhile_none)
  moreover have "trim_end_matches is_whitespace v = v"
    using assms by (simp add: trim_end_matches_id)
  ultimately show ?thesis by (simp add: trim_def trim_end_matches_append)
qed

lemma space_whitespace: "is_whitespace 32" and ch_space: "ch CHR '' '' = 32"
  by (simp_all add: is_whitespace_def ch_def)

lemma parse_verb_arg:
  assumes "v \<noteq> []" and "\<forall>c \<in> set v. \<not> is_whitespace c"
  shows "parse_command (v @ 32 # arg) = match_verb (to_ascii_uppercase v) (trim arg)"
proof -
  have no_sp: "32 \<notin> set v" using assms(2) space_whitespace by blast
  show ?thesis
  proof (cases "\<forall>c \<in> set arg. is_whitespace c")
    case True
    then have "trim (v @ 32 # arg) = v" using assms by (simp add: trim_word_arg space_whitespace)
    moreover have "split_once 32 v = None" using no_sp by (simp add: split_once_None)
    moreover have "trim arg = []" using True by (simp add: trim_Nil_iff)
    ultimately show ?thesis by (simp add: parse_command_def split_verb_def ch_space)
  next
    case False
    then have "trim_end_matches is_whitespace ([32] @ arg) = 32 # trim_end_matches is_whitespace arg"
      by (subst trim_end_matches_append) auto
    then have "trim (v @ 32 # arg) = v @ 32 # trim_end_matches is_whitespace arg"
      using False assms by (simp add: trim_word_arg)
    moreover have "split_once 32 (v @ 32 # trim_end_matches is_whitespace arg) =
        Some (v, trim_end_matches is_whitespace arg)" using no_sp by simp
    ultimately show ?thesis by (simp add: parse_command_def split_verb_def ch_space trim_trim_end)
  qed
qed

lemma parse_verb:
  assumes "v \<noteq> []" and "\<forall>c \<in> set v. \<not> is_whitespace c"
  shows "parse_command v = match_verb (to_ascii_uppercase v) []"
proof -
  have "32 \<notin> set v" using assms(2) space_whitespace by blast
  then have "split_once 32 v = None" by (simp add: split_once_None)
  then show ?thesis
    using assms trim_word_arg [of v "[]"]
    by (simp add: parse_command_def split_verb_def ch_space)
qed

lemmas verb_evals = lit_def ch_def is_whitespace_def ascii_upper_def match_verb_def

text \<open>C30: whatever a client sends, the text logged for the command it is parsed into contains
  no control character, so a logged line cannot be forged or carry terminal control
  sequences.\<close>

theorem log_text_has_no_control_char:
  "\<not> list_ex is_control (as_log_str (parse_command line))"
proof -
  have "\<not> is_control x" if "x \<in> set (as_log_str c)" for x c
    using that escape_control_chars_printable
    by (cases c) (auto simp: lit_def ch_def is_control_def)
  then show ?thesis by (auto simp: list_ex_iff)
qed

text \<open>C28: a command in its wire form parses back to itself, for every supported command whose
  argument carries no surrounding blanks.\<close>

theorem parse_wire_form:
  assumes "canonical c"
  shows "parse_command (wire_form c) = c"
proof -
  have arg: "parse_command (lit v @ 32 # a) = match_verb (lit v) (trim a)"
    if "lit v \<in> set supported_verbs" for v a
    using supported_verb_plain [OF that] by (simp add: parse_verb_arg)
  have bare: "parse_command (lit v) = match_verb (lit v) []"
    if "lit v \<in> set supported_verbs" for v
    using supported_verb_plain [OF that] by (simp add: parse_verb)
  note args = arg [of "''USER''"] arg [of "''PASS''"] arg [of "''TYPE''"] arg [of "''CWD''"]
    arg [of "''STOR''"] arg [of "''MKD''"]
  note bares = bare [of "''SYST''"] bare [of "''PWD''"] bare [of "''PASV''"] bare [of "''EPSV''"]
    bare [of "''QUIT''"] bare [of "''NOOP''"]
  show ?thesis
    using assms args bares
    by (cases c) (simp_all add: supported_verbs_def match_verb_def, simp_all add: lit_def ch_def)
qed

theorem parse_wire_form_witness:
  "canonical (Stor (lit ''a b.txt'')) \<and>
   parse_command (wire_form (Stor (lit ''a b.txt''))) = Stor (lit ''a b.txt'')"
proof -
  have "canonical (Stor (lit ''a b.txt''))" by code_simp
  then show ?thesis using parse_wire_form by blast
qed


text \<open>C29: the text logged for a \<^verbatim>\<open>PASS\<close> line does not depend on the password, in whatever
  case the verb is written.\<close>

theorem password_never_logged:
  assumes "to_ascii_uppercase v = lit ''PASS''"
  shows "as_log_str (parse_command (v @ 32 # password)) = lit ''PASS <redacted>''"
proof -
  have up: "\<forall>c \<in> set (to_ascii_uppercase v). \<not> is_whitespace c"
    unfolding assms by (simp add: verb_evals)
  have "\<not> is_whitespace c" if "c \<in> set v" for c
  proof -
    have "\<not> is_whitespace (ascii_upper c)" using up that by simp
    then show ?thesis by (auto simp: is_whitespace_def ascii_upper_def split: if_splits)
  qed
  moreover have "v \<noteq> []" using assms by (auto simp: lit_def)
  ultimately show ?thesis by (simp add: parse_verb_arg assms match_verb_def lit_def ch_def)
qed

theorem password_never_logged_witness:
  "to_ascii_uppercase (lit ''Pass'') = lit ''PASS'' \<and>
   as_log_str (parse_command (lit ''Pass'' @ 32 # lit ''s3cret'')) = lit ''PASS <redacted>''"
proof -
  have "to_ascii_uppercase (lit ''Pass'') = lit ''PASS''" by code_simp
  then show ?thesis using password_never_logged by blast
qed

text \<open>
  The redaction goes by the verb, and the verb ends at the first blank: with a tab instead,
  the whole line is an unknown verb and is logged, in upper case.
\<close>

lemma tab_separated_password_is_logged:
  "as_log_str (parse_command (lit ''PASS'' @ 9 # lit ''s3cret'')) =
   lit ''UNKNOWN PASS'' @ [92, 116] @ lit ''S3CRET''"
  by code_simp

end
