(* ===== verification/Session.thy ===== *)
theory Session
  imports Relay Metrics Port_Manager Ftp_Command
begin

text \<open>
  \<^verbatim>\<open>src/server/session.rs\<close>: one client's control connection, from the connection to a backend to
  the end of the session. The code is written with early exits (the macros \<^verbatim>\<open>client_io!\<close> and
  \<^verbatim>\<open>backend_io!\<close>, \<^verbatim>\<open>break\<close>, \<^verbatim>\<open>continue\<close>, \<^verbatim>\<open>return\<close>) and with guards that are dropped on every exit;
  here a piece of it is a \<open>task\<close>: a function of the session's state that ends with a value or with
  the way the turn ends. What the client, the backend, the network and the operating system do is
  given per turn of the loop.
\<close>

section \<open>State\<close>

record session_args =
  peer_addr :: socket_addr
  arg_backend :: backend_config
  arg_passive :: passive_config
  arg_timeouts :: timeout_config
  arg_limits :: limits_config
  arg_tls :: "tls_connector option"

text \<open>
  The session's own variables and the shared components it was given. \<open>transfers\<close> records the
  relays that ran, each with whether the backend's side was TLS.
\<close>

record session =
  client_conn :: conn
  backend_conn :: conn
  active_pasv :: "u16 option"
  source_ip :: "ipv4_addr option"
  s_ports :: port_manager
  s_metrics :: metrics
  s_dns :: dns_cache
  s_rotator :: "rotator option"
  transfers :: "(bool \<times> relay_outcome) list"

record data_channel =
  client_data :: data_stream
  backend_data :: data_stream
  data_slot :: "(ustr \<times> ipv4_addr) option"

datatype accept_event = Accepted data_stream socket_addr | AcceptErr io_error

text \<open>
  What the surroundings do in one turn: which ports can be bound, which data connections arrive on
  the announced port before the timer fires, what other sessions do to the rotator during the wait
  for a slot, the network towards the backend's data port, the peer address of the control
  connection, the time at which a failure is reported, the TLS handshake on the data connection
  and the time at which the relay starts.
\<close>

record turn =
  t_can_bind :: "u16 \<Rightarrow> bool"
  t_accepts :: "accept_event list"
  t_others :: "rotator \<Rightarrow> rotator"
  t_net :: "data_stream net"
  t_control_peer :: "socket_addr option"
  t_now :: instant
  t_handshake :: "tls_connector \<Rightarrow> ustr \<Rightarrow> data_stream \<Rightarrow> data_stream io_result timed"
  t_start :: instant

section \<open>Tasks\<close>

datatype flow = Continue | Break | Return

type_synonym 'a task = "session \<Rightarrow> (flow + 'a) \<times> session"

definition give :: "'a \<Rightarrow> 'a task" where
  "give x s = (Inr x, s)"

definition stop :: "flow \<Rightarrow> 'a task" where
  "stop f s = (Inl f, s)"

definition modify :: "(session \<Rightarrow> session) \<Rightarrow> unit task" where
  "modify f s = (Inr (), f s)"

definition bind_task :: "'a task \<Rightarrow> ('a \<Rightarrow> 'b task) \<Rightarrow> 'b task" where
  "bind_task t k s = (case t s of (Inl f, s') \<Rightarrow> (Inl f, s') | (Inr x, s') \<Rightarrow> k x s')"

text \<open>A guard that is dropped when its scope is left, however that happens.\<close>

definition scoped :: "'a task \<Rightarrow> (session \<Rightarrow> session) \<Rightarrow> 'a task" where
  "scoped t drop_guard s = (case t s of (r, s') \<Rightarrow> (r, drop_guard s'))"

text \<open>A guard that is still live after \<open>t\<close>, unless \<open>t\<close> ends the turn.\<close>

definition on_stop :: "'a task \<Rightarrow> (session \<Rightarrow> session) \<Rightarrow> 'a task" where
  "on_stop t drop_guard s =
     (case t s of (Inl f, s') \<Rightarrow> (Inl f, drop_guard s') | (Inr x, s') \<Rightarrow> (Inr x, s'))"

abbreviation on_metrics :: "(metrics \<Rightarrow> metrics) \<Rightarrow> session \<Rightarrow> session" where
  "on_metrics f s \<equiv> s\<lparr>s_metrics := f (s_metrics s)\<rparr>"

abbreviation on_ports :: "(port_manager \<Rightarrow> port_manager) \<Rightarrow> session \<Rightarrow> session" where
  "on_ports f s \<equiv> s\<lparr>s_ports := f (s_ports s)\<rparr>"

abbreviation on_rotator :: "(rotator \<Rightarrow> rotator) \<Rightarrow> session \<Rightarrow> session" where
  "on_rotator f s \<equiv> s\<lparr>s_rotator := map_option f (s_rotator s)\<rparr>"

definition reply_line :: "string \<Rightarrow> ustr" where
  "reply_line s = lit s @ crlf"

text \<open>\<^verbatim>\<open>let _ = client_conn.write_all(..)\<close>: the outcome is ignored.\<close>

definition tell_client :: "ustr \<Rightarrow> session \<Rightarrow> session" where
  "tell_client msg s = s\<lparr>client_conn := snd (write_all (utf8_encode msg) (client_conn s))\<rparr>"

definition client_write :: "ustr \<Rightarrow> unit task" where
  "client_write msg s =
     (case write_all (utf8_encode msg) (client_conn s) of
        (Inr _, c) \<Rightarrow> (Inr (), s\<lparr>client_conn := c\<rparr>)
      | (Inl _, c) \<Rightarrow> (Inl Return, s\<lparr>client_conn := c\<rparr>))"

definition backend_write :: "ustr \<Rightarrow> unit task" where
  "backend_write msg s =
     (case write_all (utf8_encode msg) (backend_conn s) of
        (Inr _, c) \<Rightarrow> (Inr (), s\<lparr>backend_conn := c\<rparr>)
      | (Inl e, c) \<Rightarrow> (Inl Return, on_metrics (observe_backend_io_error e) (s\<lparr>backend_conn := c\<rparr>)))"

definition backend_read :: "session_args \<Rightarrow> (nat \<times> ustr) task" where
  "backend_read args s =
     (case read_line_with_timeout (max_command_line_bytes (arg_limits args)) (backend_conn s) of
        (Inr got, c) \<Rightarrow> (Inr got, s\<lparr>backend_conn := c\<rparr>)
      | (Inl e, c) \<Rightarrow> (Inl Return, on_metrics (observe_backend_io_error e) (s\<lparr>backend_conn := c\<rparr>)))"

text \<open>Reading a backend reply, with \<open>msg\<close> for the client if the backend closed the connection.\<close>

definition backend_reply :: "session_args \<Rightarrow> string \<Rightarrow> flow \<Rightarrow> ustr task" where
  "backend_reply args msg f =
     bind_task (backend_read args) (\<lambda>(n, line).
       if n = 0 then bind_task (modify (tell_client (reply_line msg))) (\<lambda>_. stop f)
       else give line)"

section \<open>Opening the data channel\<close>

fun accept_client_data ::
  "ip_addr option \<Rightarrow> accept_event list \<Rightarrow> metrics
    \<Rightarrow> (data_stream \<times> socket_addr) io_result timed \<times> metrics" where
  "accept_client_data expected [] m = (Elapsed, m)"
| "accept_client_data expected (AcceptErr e # events) m = (Ready (Inl e), m)"
| "accept_client_data expected (Accepted stream peer # events) m =
     (case expected of
        Some ip \<Rightarrow>
          if sa_ip peer \<noteq> ip then accept_client_data expected events (data_connection_rejected m)
          else (Ready (Inr (stream, peer)), m)
      | None \<Rightarrow> (Ready (Inr (stream, peer)), m))"

definition backend_key :: "session_args \<Rightarrow> ustr" where
  "backend_key args = host_key (backend_host (arg_backend args)) (backend_port (arg_backend args))"

text \<open>
  The slot of the transfer: \<open>None\<close> when none got free, \<open>Some None\<close> when source rotation is off.
\<close>

definition claim_slot :: "session_args \<Rightarrow> turn \<Rightarrow> (ustr \<times> ipv4_addr) option option task" where
  "claim_slot args t s =
     (case (s_rotator s, source_ip s) of
        (Some r, Some src) \<Rightarrow>
          (case acquire_data_slot (t_others t) (backend_key args)
                  (range_len (passive_ports (arg_backend args))) src r of
             (slot, r') \<Rightarrow> (Inr (map_option Some slot), s\<lparr>s_rotator := Some r'\<rparr>))
      | _ \<Rightarrow> (Inr (Some None), s))"

definition release_slot :: "(ustr \<times> ipv4_addr) option \<Rightarrow> session \<Rightarrow> session" where
  "release_slot slot s = (case slot of None \<Rightarrow> s | Some g \<Rightarrow> on_rotator (drop_data_slot g) s)"

definition limits_of :: "session_args \<Rightarrow> connect_limits" where
  "limits_of args =
     \<lparr>max_line_bytes = max_command_line_bytes (arg_limits args),
      fallback_to_control_ip = backend_pasv_fallback_to_control_ip (arg_limits args),
      passive_mode = backend_passive_mode (arg_limits args)\<rparr>"

definition observe_connect_error :: "data_connect_error \<Rightarrow> metrics \<Rightarrow> metrics" where
  "observe_connect_error err m =
     (case connect_error_io err of None \<Rightarrow> m | Some e \<Rightarrow> observe_backend_io_error e m)"

text \<open>The failure of \<^verbatim>\<open>open_backend_data_connection\<close>; the answer is whether the control connection
  was lost.\<close>

definition data_connect_failed :: "turn \<Rightarrow> data_connect_error \<Rightarrow> bool task" where
  "data_connect_failed t err =
     (case err of
        ControlConnection _ \<Rightarrow>
          bind_task (modify (on_metrics (\<lambda>m. observe_connect_error err (backend_pasv_failed m))))
            (\<lambda>_. give True)
      | UnusableReply \<Rightarrow>
          bind_task (modify (on_metrics backend_pasv_failed)) (\<lambda>_. give False)
      | ConnectFailed e \<Rightarrow>
          bind_task (modify (on_metrics
              (\<lambda>m. observe_connect_error err (backend_data_connection_failed m)))) (\<lambda>_.
          bind_task (modify (\<lambda>s.
              case source_ip s of
                None \<Rightarrow> s
              | Some src \<Rightarrow> on_rotator (\<lambda>r. snd (report_connect_failure src e (t_now t) r)) s)) (\<lambda>_.
          give False)))"

definition open_data :: "session_args \<Rightarrow> turn \<Rightarrow> (data_connect_error + data_stream) task" where
  "open_data args t s =
     (case open_backend_data_connection (t_net t) (source_ip s) (limits_of args) (t_control_peer t)
             (backend_conn s) of
        (r, c) \<Rightarrow> (Inr r, s\<lparr>backend_conn := c\<rparr>))"

text \<open>The channel, if there is one, and whether the control connection was lost.\<close>

definition open_channel :: "session_args \<Rightarrow> turn \<Rightarrow> (data_channel option \<times> bool) task" where
  "open_channel args t s =
     (case accept_client_data
             (if require_data_ip_match (arg_limits args) then Some (sa_ip (peer_addr args)) else None)
             (t_accepts t) (s_metrics s) of
        (Ready (Inr (stream, _)), m) \<Rightarrow>
          bind_task (claim_slot args t) (\<lambda>slot.
            case slot of
              None \<Rightarrow> give (None, False)
            | Some slot \<Rightarrow>
                bind_task (open_data args t) (\<lambda>r.
                  case r of
                    Inr data \<Rightarrow>
                      give (Some \<lparr>client_data = stream, backend_data = data, data_slot = slot\<rparr>, False)
                  | Inl err \<Rightarrow>
                      scoped (bind_task (data_connect_failed t err) (\<lambda>lost. give (None, lost)))
                        (release_slot slot)))
            (s\<lparr>s_metrics := m\<rparr>)
      | (_, m) \<Rightarrow> (Inr (None, False), s\<lparr>s_metrics := m\<rparr>))"

section \<open>The upload\<close>

text \<open>Forwarding \<^verbatim>\<open>STOR\<close>, and its first reply.\<close>

definition start_transfer :: "session_args \<Rightarrow> ustr \<Rightarrow> unit task" where
  "start_transfer args line =
     bind_task (backend_write line) (\<lambda>_.
     bind_task (backend_reply args ''421 Service not available'' Break) (\<lambda>reply.
     bind_task (client_write reply) (\<lambda>_.
       if arg_tls args \<noteq> None \<and> \<not> starts_with reply (lit ''1'') then stop Continue else give ())))"

definition tls_connect_data ::
  "rustls \<Rightarrow> turn \<Rightarrow> tls_connector \<Rightarrow> ustr \<Rightarrow> data_stream \<Rightarrow> data_stream io_result timed" where
  "tls_connect_data lib t connector host stream =
     (let name = (case tls_server_name connector of Some n \<Rightarrow> n | None \<Rightarrow> host) in
      if \<not> valid_server_name lib name then Ready (Inl InvalidInput)
      else t_handshake t connector name stream)"

definition secure_data ::
  "rustls \<Rightarrow> session_args \<Rightarrow> turn \<Rightarrow> data_stream \<Rightarrow> (bool \<times> data_stream) io_result" where
  "secure_data lib args t stream =
     (case arg_tls args of
        None \<Rightarrow> Inr (False, stream)
      | Some connector \<Rightarrow>
          (case tls_connect_data lib t connector (backend_host (arg_backend args)) stream of
             Elapsed \<Rightarrow> Inl TimedOut
           | Ready (Inl e) \<Rightarrow> Inl e
           | Ready (Inr d) \<Rightarrow> Inr (True, d)))"

definition observe_data_error :: "(bool \<times> data_stream) io_result \<Rightarrow> session \<Rightarrow> session" where
  "observe_data_error r =
     (case r of
        Inl e \<Rightarrow> on_metrics (\<lambda>m. observe_backend_io_error e (backend_data_connection_failed m))
      | Inr _ \<Rightarrow> id)"

definition run_relay ::
  "session_args \<Rightarrow> turn \<Rightarrow> data_stream \<Rightarrow> (bool \<times> data_stream) io_result \<Rightarrow> session \<Rightarrow> session" where
  "run_relay args t client r s =
     (case r of
        Inl e \<Rightarrow> s
      | Inr (tls, d) \<Rightarrow>
          (let outcome = relay_bidirectional
                 (from_secs (data_idle_timeout_secs (arg_timeouts args))) (t_start t) client d;
               s1 = s\<lparr>transfers := transfers s @ [(tls, outcome)]\<rparr>
           in case relayed outcome of
                Inr (n, _) \<Rightarrow> on_metrics (add_upload_bytes (of_nat n)) s1
              | Inl _ \<Rightarrow> s1))"

text \<open>The completion reply decides how the attempt ended, and is passed on.\<close>

definition finish_upload :: "ustr \<Rightarrow> unit task" where
  "finish_upload completion =
     (if starts_with (trim_end_matches (\<lambda>c. c = 13 \<or> c = 10) completion) (lit ''2'')
      then bind_task (modify (on_metrics attempt_succeeded)) (\<lambda>_.
           bind_task (client_write completion) (\<lambda>_. stop Continue))
      else scoped (bind_task (client_write completion) (\<lambda>_. stop Continue))
             (on_metrics (drop_upload_attempt False)))"

definition transfer ::
  "session_args \<Rightarrow> turn \<Rightarrow> data_stream \<Rightarrow> (bool \<times> data_stream) io_result \<Rightarrow> ustr task" where
  "transfer args t client r =
     bind_task (modify (run_relay args t client r)) (\<lambda>_.
       backend_reply args ''426 Connection closed; transfer aborted'' Break)"

definition run_upload :: "rustls \<Rightarrow> session_args \<Rightarrow> turn \<Rightarrow> ustr \<Rightarrow> data_channel \<Rightarrow> unit task" where
  "run_upload lib args t line channel =
     (let attempt_failed = on_metrics (drop_upload_attempt False) in
      bind_task (modify (on_metrics upload_attempted)) (\<lambda>_.
      bind_task (on_stop (start_transfer args line) attempt_failed) (\<lambda>_.
      let r = secure_data lib args t (backend_data channel) in
      bind_task (modify (observe_data_error r)) (\<lambda>_.
      bind_task (modify (on_metrics upload_started)) (\<lambda>_.
      scoped
        (bind_task (on_stop (transfer args t (client_data channel) r) attempt_failed) finish_upload)
        (on_metrics drop_upload_guard))))))"

text \<open>\<^verbatim>\<open>STOR\<close> with an announced port, whose guard lives until the end of the block.\<close>

definition handle_stor :: "rustls \<Rightarrow> session_args \<Rightarrow> turn \<Rightarrow> ustr \<Rightarrow> u16 \<Rightarrow> unit task" where
  "handle_stor lib args t line port =
     scoped
       (bind_task (modify (\<lambda>s. s\<lparr>active_pasv := None\<rparr>)) (\<lambda>_.
        bind_task (open_channel args t) (\<lambda>(channel, control_lost).
          if control_lost
          then bind_task (modify (tell_client (reply_line ''421 Service not available''))) (\<lambda>_. stop Break)
          else (case channel of
                  Some chan \<Rightarrow> scoped (run_upload lib args t line chan) (release_slot (data_slot chan))
                | None \<Rightarrow>
                    bind_task (client_write (reply_line ''425 Can't open data connection''))
                      (\<lambda>_. stop Continue)))))
       (on_ports (drop_port_guard port))"

section \<open>The other commands\<close>

definition drop_active_pasv :: "session \<Rightarrow> session" where
  "drop_active_pasv s =
     (case active_pasv s of
        None \<Rightarrow> s
      | Some old \<Rightarrow> on_ports (drop_port_guard old) (s\<lparr>active_pasv := None\<rparr>))"

definition allocate_port :: "turn \<Rightarrow> u16 option task" where
  "allocate_port t s =
     (case allocate (s_ports s) (t_can_bind t) of (port, m) \<Rightarrow> (Inr port, s\<lparr>s_ports := m\<rparr>))"

definition handle_pasv :: "session_args \<Rightarrow> turn \<Rightarrow> ftp_command \<Rightarrow> unit task" where
  "handle_pasv args t command =
     bind_task (modify drop_active_pasv) (\<lambda>_.
     bind_task (allocate_port t) (\<lambda>port.
       case port of
         Some p \<Rightarrow>
           bind_task
             (on_stop
                (client_write (if command = Epsv then epsv_reply p
                               else pasv_reply (passive_address (arg_passive args)) p))
                (on_ports (drop_port_guard p))) (\<lambda>_.
           bind_task (modify (\<lambda>s. s\<lparr>active_pasv := Some p\<rparr>)) (\<lambda>_. stop Continue))
       | None \<Rightarrow>
           bind_task (client_write (reply_line ''425 Can't open data connection''))
             (\<lambda>_. stop Continue)))"

definition forward_command :: "session_args \<Rightarrow> ustr \<Rightarrow> ftp_command \<Rightarrow> unit task" where
  "forward_command args line command =
     bind_task (backend_write line) (\<lambda>_.
     bind_task (backend_reply args ''421 Service not available'' Break) (\<lambda>reply.
     bind_task (client_write reply) (\<lambda>_.
       if command = Quit then stop Break else stop Continue)))"

definition handle_line :: "rustls \<Rightarrow> session_args \<Rightarrow> turn \<Rightarrow> ustr \<Rightarrow> unit task" where
  "handle_line lib args t line s =
     (let trimmed_line = trim_end_matches (\<lambda>c. c = 13 \<or> c = 10) line in
      if has_embedded_line_break trimmed_line
      then bind_task (client_write (reply_line ''501 Syntax error in parameters or arguments''))
             (\<lambda>_. stop Continue) s
      else let command = parse_command trimmed_line in
           case command of
             Unknown _ \<Rightarrow>
               bind_task (client_write (reply_line ''502 Command not implemented''))
                 (\<lambda>_. stop Continue) s
           | Pasv \<Rightarrow> handle_pasv args t command s
           | Epsv \<Rightarrow> handle_pasv args t command s
           | Stor _ \<Rightarrow>
               (case active_pasv s of
                  Some port \<Rightarrow> handle_stor lib args t line port s
                | None \<Rightarrow> forward_command args line command s)
           | _ \<Rightarrow> forward_command args line command s)"

section \<open>The loop\<close>

definition session_turn :: "rustls \<Rightarrow> session_args \<Rightarrow> turn \<Rightarrow> session \<Rightarrow> (flow + unit) \<times> session" where
  "session_turn lib args t s =
     (case read_line_bounded (max_command_line_bytes (arg_limits args)) (client_conn s) of
        (Elapsed, c) \<Rightarrow>
          (Inl Break,
           tell_client (reply_line ''421 Idle timeout, closing control connection'')
             (on_metrics session_idle_timed_out (s\<lparr>client_conn := c\<rparr>)))
      | (Ready (Inl e), c) \<Rightarrow>
          if e = InvalidData
          then (Inl Break, tell_client (reply_line ''500 Command line too long'') (s\<lparr>client_conn := c\<rparr>))
          else (Inl Return, s\<lparr>client_conn := c\<rparr>)
      | (Ready (Inr (n, line)), c) \<Rightarrow>
          if n = 0 then (Inl Break, s\<lparr>client_conn := c\<rparr>)
          else handle_line lib args t line (s\<lparr>client_conn := c\<rparr>))"

section \<open>Reasoning about tasks\<close>

text \<open>
  From a state with \<open>pre\<close>, a task that gives a value ends with \<open>post\<close> of that value, and one that
  ends the turn with \<open>ended\<close>.
\<close>

definition triple ::
  "(session \<Rightarrow> bool) \<Rightarrow> 'a task \<Rightarrow> ('a \<Rightarrow> session \<Rightarrow> bool) \<Rightarrow> (session \<Rightarrow> bool) \<Rightarrow> bool" where
  "triple pre t post ended \<longleftrightarrow>
     (\<forall>s. pre s \<longrightarrow> (case t s of (Inl f, s') \<Rightarrow> ended s' | (Inr x, s') \<Rightarrow> post x s'))"

abbreviation keeps :: "(session \<Rightarrow> bool) \<Rightarrow> 'a task \<Rightarrow> bool" where
  "keeps P t \<equiv> triple P t (\<lambda>_. P) P"

named_theorems task_rules \<open>introduction rules for triples\<close>

lemma triple_give [task_rules]: "(\<And>s. pre s \<Longrightarrow> post x s) \<Longrightarrow> triple pre (give x) post ended"
  by (simp add: triple_def give_def)

lemma triple_stop [task_rules]: "(\<And>s. pre s \<Longrightarrow> ended s) \<Longrightarrow> triple pre (stop f) post ended"
  by (simp add: triple_def stop_def)

lemma triple_modify [task_rules]: "(\<And>s. pre s \<Longrightarrow> post () (f s)) \<Longrightarrow> triple pre (modify f) post ended"
  by (simp add: triple_def modify_def)

lemma triple_bind:
  "triple pre t mid ended \<Longrightarrow> (\<And>x. triple (mid x) (k x) post ended) \<Longrightarrow>
     triple pre (bind_task t k) post ended"
  unfolding triple_def bind_task_def by (fastforce split: prod.splits sum.splits)

lemma triple_scoped:
  "triple pre t mid mid' \<Longrightarrow> (\<And>x s. mid x s \<Longrightarrow> post x (d s)) \<Longrightarrow> (\<And>s. mid' s \<Longrightarrow> ended (d s)) \<Longrightarrow>
     triple pre (scoped t d) post ended"
  unfolding triple_def scoped_def by (fastforce split: prod.splits sum.splits)

lemma triple_on_stop:
  "triple pre t post mid \<Longrightarrow> (\<And>s. mid s \<Longrightarrow> ended (d s)) \<Longrightarrow> triple pre (on_stop t d) post ended"
  unfolding triple_def on_stop_def by (fastforce split: prod.splits sum.splits)

lemma triple_weaken:
  "triple pre t post ended \<Longrightarrow> (\<And>x s. post x s \<Longrightarrow> post' x s) \<Longrightarrow> (\<And>s. ended s \<Longrightarrow> ended' s) \<Longrightarrow>
     triple pre t post' ended'"
  unfolding triple_def by (fastforce split: prod.splits sum.splits)

lemma keeps_bind [task_rules]:
  "keeps P t \<Longrightarrow> (\<And>x. keeps P (k x)) \<Longrightarrow> keeps P (bind_task t k)"
  by (rule triple_bind)

lemma keeps_scoped [task_rules]:
  "keeps P t \<Longrightarrow> (\<And>s. P s \<Longrightarrow> P (d s)) \<Longrightarrow> keeps P (scoped t d)"
  by (rule triple_scoped)

lemma keeps_on_stop [task_rules]:
  "keeps P t \<Longrightarrow> (\<And>s. P s \<Longrightarrow> P (d s)) \<Longrightarrow> keeps P (on_stop t d)"
  by (rule triple_on_stop)

lemma tripleD: "triple pre t post ended \<Longrightarrow> pre s \<Longrightarrow> t s = (r, s') \<Longrightarrow>
    case r of Inl f \<Rightarrow> ended s' | Inr x \<Rightarrow> post x s'"
  unfolding triple_def by (fastforce split: prod.splits sum.splits)

lemma keepsD: "keeps P t \<Longrightarrow> P s \<Longrightarrow> t s = (r, s') \<Longrightarrow> P s'"
  unfolding triple_def by (fastforce split: prod.splits sum.splits)

lemma keepsI: "(\<And>s r s'. P s \<Longrightarrow> t s = (r, s') \<Longrightarrow> P s') \<Longrightarrow> keeps P t"
  unfolding triple_def by (fastforce split: prod.splits sum.splits)

text \<open>The pieces of a turn, for unfolding.\<close>

lemmas turn_parts = handle_pasv_def forward_command_def handle_stor_def run_upload_def transfer_def
  finish_upload_def start_transfer_def data_connect_failed_def backend_reply_def

text \<open>
  The contract by which a property of the session survives a turn: it survives each thing a turn
  does. Commands reach the backend only as \<open>vetted\<close> lines.
\<close>

definition body_of :: "ustr \<Rightarrow> ustr" where
  "body_of line = trim_end_matches (\<lambda>c. c = 13 \<or> c = 10) line"

definition single_line :: "ustr \<Rightarrow> bool" where
  "single_line line \<longleftrightarrow> 10 \<notin> set (butlast line)"

definition vetted :: "ustr \<Rightarrow> bool" where
  "vetted line \<longleftrightarrow> single_line line \<and> \<not> has_embedded_line_break (body_of line) \<and>
     (case parse_command (body_of line) of Unknown _ \<Rightarrow> False | Pasv \<Rightarrow> False | Epsv \<Rightarrow> False | _ \<Rightarrow> True)"

locale turn_frame =
  fixes P :: "session \<Rightarrow> bool" and args :: session_args
  assumes client_out: "P s \<Longrightarrow> P (s\<lparr>client_conn := snd (write_all b (client_conn s))\<rparr>)"
    and forwards: "P s \<Longrightarrow> vetted line \<Longrightarrow>
      P (s\<lparr>backend_conn := snd (write_all (utf8_encode line) (backend_conn s))\<rparr>)"
    and backend_in: "P s \<Longrightarrow> reads (backend_conn s) c \<Longrightarrow> P (s\<lparr>backend_conn := c\<rparr>)"
    and opens: "P s \<Longrightarrow>
      open_backend_data_connection (net :: data_stream net) ip (limits_of args) peer (backend_conn s)
        = (r, c) \<Longrightarrow> P (s\<lparr>backend_conn := c\<rparr>)"
    and metrics: "P s \<Longrightarrow> P (s\<lparr>s_metrics := m\<rparr>)"
    and ports: "P s \<Longrightarrow> P (s\<lparr>s_ports := ps\<rparr>)"
    and rotator: "P s \<Longrightarrow> P (s\<lparr>s_rotator := ro\<rparr>)"
    and pasv: "P s \<Longrightarrow> P (s\<lparr>active_pasv := a\<rparr>)"
    and relays: "P s \<Longrightarrow> P (s\<lparr>transfers := transfers s @ [(arg_tls args \<noteq> None, outcome)]\<rparr>)"
begin

lemma tell_client: "P s \<Longrightarrow> P (tell_client msg s)"
  by (simp add: tell_client_def client_out)

lemma client_write: "keeps P (client_write msg)"
proof (rule keepsI)
  fix s r s'
  assume "P s" and "client_write msg s = (r, s')"
  then show "P s'"
    using client_out [of s "utf8_encode msg"]
    by (cases "write_all (utf8_encode msg) (client_conn s)") (auto simp: client_write_def split: sum.splits)
qed

lemma backend_write: "vetted line \<Longrightarrow> keeps P (backend_write line)"
proof (rule keepsI)
  fix s r s'
  assume "vetted line" and "P s" and "backend_write line s = (r, s')"
  then show "P s'"
    using forwards [of s line] metrics
    by (cases "write_all (utf8_encode line) (backend_conn s)")
      (auto simp: backend_write_def split: sum.splits)
qed

lemma backend_read: "keeps P (backend_read args)"
proof (rule keepsI)
  fix s r s'
  assume "P s" and "backend_read args s = (r, s')"
  then show "P s'"
    using backend_in [of s] metrics read_line_with_timeout_reads
    by (cases "read_line_with_timeout (max_command_line_bytes (arg_limits args)) (backend_conn s)")
      (auto simp: backend_read_def split: sum.splits)
qed

lemma open_data: "keeps P (open_data args t)"
  by (rule keepsI) (auto simp: open_data_def split: prod.splits dest: opens)

lemma claim_slot: "keeps P (claim_slot args t)"
  by (rule keepsI) (auto simp: claim_slot_def rotator split: prod.splits option.splits)

lemma allocate_port: "keeps P (allocate_port t)"
  by (rule keepsI) (auto simp: allocate_port_def ports split: prod.splits)

lemma release_slot: "P s \<Longrightarrow> P (release_slot slot s)"
  by (simp add: release_slot_def rotator split: option.splits)

lemma drop_active_pasv: "P s \<Longrightarrow> P (drop_active_pasv s)"
  by (simp add: drop_active_pasv_def ports pasv split: option.splits)

lemma observe_data_error: "P s \<Longrightarrow> P (observe_data_error r s)"
  by (simp add: observe_data_error_def metrics split: sum.splits)

lemma run_relay: "P s \<Longrightarrow> P (run_relay args t c (secure_data lib args t d) s)"
  using relays [of s]
  by (auto simp: run_relay_def secure_data_def Let_def metrics split: option.splits sum.splits timed.splits)

lemmas parts = tell_client client_write backend_read open_data claim_slot allocate_port release_slot
  drop_active_pasv observe_data_error run_relay metrics ports rotator pasv

lemma backend_reply: "keeps P (backend_reply args msg f)"
  unfolding backend_reply_def by (intro task_rules) (auto intro!: task_rules parts)

lemma start_transfer: "vetted line \<Longrightarrow> keeps P (start_transfer args line)"
  unfolding start_transfer_def by (auto intro!: task_rules parts backend_write backend_reply)

lemma transfer: "keeps P (transfer args t c (secure_data lib args t d))"
  unfolding transfer_def by (auto intro!: task_rules parts backend_reply)

lemma finish_upload: "keeps P (finish_upload completion)"
  unfolding finish_upload_def by (auto intro!: task_rules parts)

lemma run_upload: "vetted line \<Longrightarrow> keeps P (run_upload lib args t line channel)"
  unfolding run_upload_def Let_def
  by (intro task_rules parts start_transfer transfer finish_upload)

lemma data_connect_failed: "keeps P (data_connect_failed t err)"
  unfolding data_connect_failed_def
  by (cases err) (auto intro!: task_rules parts split: option.splits)

lemma open_channel: "keeps P (open_channel args t)"
proof (rule keepsI)
  fix s r s'
  assume s: "P s" and t: "open_channel args t s = (r, s')"
  have k: "keeps P (bind_task (claim_slot args t) (\<lambda>slot.
            case slot of
              None \<Rightarrow> give (None, False)
            | Some slot \<Rightarrow>
                bind_task (open_data args t) (\<lambda>r.
                  case r of
                    Inr data \<Rightarrow>
                      give (Some \<lparr>client_data = stream, backend_data = data, data_slot = slot\<rparr>, False)
                  | Inl err \<Rightarrow>
                      scoped (bind_task (data_connect_failed t err) (\<lambda>lost. give (None, lost)))
                        (release_slot slot))))" for stream
    by (auto intro!: task_rules parts data_connect_failed split: option.splits sum.splits)
  show "P s'"
    using t keepsD [OF k metrics [OF s]] metrics [OF s]
    unfolding open_channel_def by (auto split: prod.splits timed.splits sum.splits)
qed

lemma handle_stor: "vetted line \<Longrightarrow> keeps P (handle_stor lib args t line port)"
  unfolding handle_stor_def
  by (auto intro!: task_rules parts open_channel run_upload split: option.splits)

lemma handle_pasv: "keeps P (handle_pasv args t command)"
  unfolding handle_pasv_def by (auto intro!: task_rules parts split: option.splits)

lemma forward_command: "vetted line \<Longrightarrow> keeps P (forward_command args line command)"
  unfolding forward_command_def by (auto intro!: task_rules parts backend_write backend_reply)

lemma reject: "keeps P (bind_task (client_write msg) (\<lambda>_. stop Continue))"
  by (auto intro!: task_rules parts)

lemma handle_line: "single_line line \<Longrightarrow> keeps P (handle_line lib args t line)"
proof (rule keepsI)
  fix s r s'
  assume l: "single_line line" and s: "P s" and t: "handle_line lib args t line s = (r, s')"
  note k = reject [THEN keepsD, OF s] handle_pasv [THEN keepsD, OF s]
  show "P s'"
  proof (cases "vetted line")
    case True
    note keepsD [OF handle_stor [OF True] s] keepsD [OF forward_command [OF True] s]
    with t k show ?thesis
      by (auto simp: handle_line_def Let_def split: if_splits ftp_command.splits option.splits)
  next
    case False
    with t k l show ?thesis
      by (auto simp: handle_line_def Let_def vetted_def body_of_def split: if_splits ftp_command.splits)
  qed
qed

end

section \<open>The loop ends\<close>

text \<open>Only reading a command takes input from the client.\<close>

lemma write_all_input [simp]: "pending_input (snd (write_all b c)) = pending_input c"
  by (auto simp: write_all_def pending_input_def split: list.splits write_outcome.splits)

interpretation client_input: turn_frame "\<lambda>s. pending_input (client_conn s) = n" args for n args
  by unfold_locales simp_all

lemma read_single_line:
  assumes "read_line_bounded m c = (Ready (Inr (n, line)), c')"
  shows "single_line line"
proof (cases line rule: rev_cases)
  case (snoc l x)
  have e: "utf8_encode line = line_of (unat m) (unread c)"
    using assms read_line_Ok(1) [of "unat m" c n line c']
    by (auto simp: read_line_bounded_def split: prod.splits timed.splits sum.splits if_splits)
  have "newline \<in> set (utf8_encode l)" if "10 \<in> set l"
    using that utf8_encode_newline by (metis UnCI in_set_conv_decomp list.set_intros(1) set_append
        utf8_encode_append append_Cons append_Nil)
  moreover have "utf8_encode [x] \<noteq> []" by (auto simp: utf8_encode_def utf8_char_def)
  then have "set (utf8_encode l) \<subseteq> set (butlast (utf8_encode line))"
    by (simp add: snoc butlast_append)
  ultimately show ?thesis using line_of_newline [of "unat m" "unread c"] e snoc
    by (auto simp: single_line_def)
qed (simp add: single_line_def)

lemma session_turn_reads:
  assumes "session_turn lib args t s = (Inl Continue, s')"
  shows "pending_input (client_conn s') < pending_input (client_conn s)"
proof -
  obtain r c where rd: "read_line_bounded (max_command_line_bytes (arg_limits args)) (client_conn s) = (r, c)"
    by fastforce
  with assms obtain n line where r: "r = Ready (Inr (n, line))" "n \<noteq> 0"
    and h: "handle_line lib args t line (s\<lparr>client_conn := c\<rparr>) = (Inl Continue, s')"
    by (auto simp: session_turn_def split: timed.splits sum.splits if_splits)
  have "pending_input c + n \<le> pending_input (client_conn s)"
    using rd r read_line_Ok(4) [of _ "client_conn s" n line c]
    by (auto simp: read_line_bounded_def split: prod.splits timed.splits sum.splits if_splits)
  moreover have "pending_input (client_conn s') = pending_input c"
    by (rule keepsD [OF client_input.handle_line [OF read_single_line [OF rd [unfolded r]]] _ h]) simp
  ultimately show ?thesis using r(2) by simp
qed

function session_loop :: "rustls \<Rightarrow> session_args \<Rightarrow> (nat \<Rightarrow> turn) \<Rightarrow> nat \<Rightarrow> session \<Rightarrow> session" where
  "session_loop lib args ts k s =
     (case session_turn lib args (ts k) s of
        (Inl Continue, s') \<Rightarrow> session_loop lib args ts (Suc k) s'
      | (Inr _, s') \<Rightarrow> s'
      | (Inl _, s') \<Rightarrow> s')"
  by pat_completeness auto
termination
  by (relation "measure (\<lambda>(lib, args, ts, k, s). pending_input (client_conn s))")
    (auto dest: session_turn_reads [OF sym])

declare session_loop.simps [simp del]

section \<open>From the accepted connection to the first command\<close>

text \<open>
  What surrounds the start of the session: when the candidates are asked for, and for each attempt
  to connect the network and when its failure is reported.
\<close>

record start_script =
  o_now :: instant
  o_net :: "nat \<Rightarrow> conn net"
  o_failed_at :: "nat \<Rightarrow> instant"

definition fresh_stream :: "conn \<Rightarrow> conn" where
  "fresh_stream c = new_conn (rx c) (wr c)"

fun connect_sources ::
  "session_args \<Rightarrow> start_script \<Rightarrow> nat \<Rightarrow> ipv4_addr list \<Rightarrow> session \<Rightarrow> bool \<times> session" where
  "connect_sources args opn k [] s = (False, s)"
| "connect_sources args opn k (src # sources) s =
     (case connect (o_net opn k) (arg_backend args) (Some src) (s_dns s) of
        (Inr stream, d) \<Rightarrow>
          (True, s\<lparr>s_dns := d, backend_conn := fresh_stream stream, source_ip := Some src\<rparr>)
      | (Inl e, d) \<Rightarrow>
          connect_sources args opn (Suc k) sources
            (on_rotator (\<lambda>r. snd (report_connect_failure src e (o_failed_at opn k) r))
              (on_metrics (observe_backend_io_error e) (s\<lparr>s_dns := d\<rparr>))))"

definition connect_backend :: "session_args \<Rightarrow> start_script \<Rightarrow> session \<Rightarrow> bool \<times> session" where
  "connect_backend args opn s =
     (case s_rotator s of
        None \<Rightarrow>
          (case connect (o_net opn 0) (arg_backend args) None (s_dns s) of
             (Inr stream, d) \<Rightarrow> (True, s\<lparr>s_dns := d, backend_conn := fresh_stream stream\<rparr>)
           | (Inl e, d) \<Rightarrow> (False, on_metrics (observe_backend_io_error e) (s\<lparr>s_dns := d\<rparr>)))
      | Some r \<Rightarrow> connect_sources args opn 0 (candidates_at (backend_key args) (o_now opn) r) s)"

text \<open>Upgrading the control connection, when TLS is on.\<close>

definition negotiate :: "rustls \<Rightarrow> session_args \<Rightarrow> unit task" where
  "negotiate lib args s =
     (case arg_tls args of
        None \<Rightarrow> (Inr (), s)
      | Some connector \<Rightarrow>
          (case negotiate_explicit_ftps lib connector (backend_host (arg_backend args))
                  (max_command_line_bytes (arg_limits args)) (backend_conn s) of
             (Inr _, c) \<Rightarrow> (Inr (), s\<lparr>backend_conn := c\<rparr>)
           | (Inl e, c) \<Rightarrow>
               (Inl Return, tell_client (reply_line ''421 Service not available'')
                  (on_metrics (observe_backend_io_error e) (s\<lparr>backend_conn := c\<rparr>)))))"

definition greet :: "rustls \<Rightarrow> session_args \<Rightarrow> unit task" where
  "greet lib args =
     bind_task (backend_reply args ''421 Service not available'' Return) (\<lambda>banner.
     bind_task (negotiate lib args) (\<lambda>_.
       client_write banner))"

text \<open>The guards the session holds at its end: an announced port and its own entry.\<close>

definition end_session :: "session \<Rightarrow> session" where
  "end_session s = on_metrics drop_session_guard (drop_active_pasv s)"

text \<open>\<open>store\<close> names the resumption store that is created for the session.\<close>

definition handle ::
  "rustls \<Rightarrow> session_args \<Rightarrow> nat \<Rightarrow> start_script \<Rightarrow> (nat \<Rightarrow> turn) \<Rightarrow> session \<Rightarrow> session" where
  "handle lib args0 store opn ts s =
     (let s1 = on_metrics session_started s;
          args = args0\<lparr>arg_tls := map_option (for_session store) (arg_tls args0)\<rparr>
      in end_session
           (case connect_backend args opn s1 of
              (False, s2) \<Rightarrow> tell_client (reply_line ''421 Service not available'') s2
            | (True, s2) \<Rightarrow>
                (case greet lib args s2 of
                   (Inl _, s3) \<Rightarrow> s3
                 | (Inr _, s3) \<Rightarrow> session_loop lib args ts 0 s3)))"

text \<open>A session as the listener starts it: an accepted connection and the shared components.\<close>

definition new_session ::
  "conn \<Rightarrow> port_manager \<Rightarrow> metrics \<Rightarrow> dns_cache \<Rightarrow> rotator option \<Rightarrow> session" where
  "new_session client pm m d r =
     \<lparr>client_conn = client, backend_conn = new_conn [] [], active_pasv = None, source_ip = None,
      s_ports = pm, s_metrics = m, s_dns = d, s_rotator = r, transfers = []\<rparr>"

section \<open>Properties of whole sessions\<close>

text \<open>A property that also survives reading from the client survives the loop.\<close>

locale session_frame = turn_frame +
  assumes client_in: "P s \<Longrightarrow> reads (client_conn s) c \<Longrightarrow> P (s\<lparr>client_conn := c\<rparr>)"
begin

lemma session_turn: "P s \<Longrightarrow> session_turn lib args t s = (r, s') \<Longrightarrow> P s'"
proof -
  assume s: "P s" and t: "session_turn lib args t s = (r, s')"
  obtain q c where rd: "read_line_bounded (max_command_line_bytes (arg_limits args)) (client_conn s) = (q, c)"
    by fastforce
  then have c: "P (s\<lparr>client_conn := c\<rparr>)" using client_in [OF s] read_line_bounded_reads by blast
  show "P s'"
  proof (cases "\<exists>n line. q = Ready (Inr (n, line)) \<and> n \<noteq> 0")
    case True
    then obtain n line where q: "q = Ready (Inr (n, line))" "n \<noteq> 0" by blast
    with rd t have "handle_line lib args t line (s\<lparr>client_conn := c\<rparr>) = (r, s')"
      by (simp add: session_turn_def)
    moreover have "single_line line" by (rule read_single_line) (use rd q in simp)
    ultimately show ?thesis using c keepsD [OF handle_line] by blast
  next
    case False
    with rd t c show ?thesis
      by (auto simp: session_turn_def tell_client metrics split: timed.splits sum.splits if_splits)
  qed
qed

lemma session_loop: "P s \<Longrightarrow> P (session_loop lib args ts k s)"
proof (induction "pending_input (client_conn s)" arbitrary: k s rule: less_induct)
  case less
  obtain r s' where t: "session_turn lib args (ts k) s = (r, s')" by fastforce
  with less.prems have s': "P s'" by (rule session_turn)
  then show ?case
    using less.hyps [of s' "Suc k"] t session_turn_reads
    by (subst session_loop.simps) (auto split: sum.splits flow.splits)
qed

end

section \<open>A short session\<close>

text \<open>
  A client that sends one \<^verbatim>\<open>NOOP\<close> in two pieces and closes, and a backend that greets it and answers.
\<close>

definition short_args :: session_args where
  "short_args =
     \<lparr>peer_addr = SocketAddr (V4 LOCALHOST) 5000, arg_backend = default_backend_config,
      arg_passive = default_passive, arg_timeouts = default_timeouts,
      arg_limits = default_limits\<lparr>max_command_line_bytes := 64\<rparr>, arg_tls = None\<rparr>"

definition short_client :: conn where
  "short_client = new_conn [RxBytes ''NO'', RxBytes (''OP'' @ [newline])] []"

definition short_start :: start_script where
  "short_start =
     \<lparr>o_now = 0,
      o_net = (\<lambda>_. \<lparr>net_now = 0, net_lookup = (\<lambda>h p. Ready (Inr [SocketAddr (V4 LOCALHOST) p])),
        net_lookup_done = 0,
        net_connect = (\<lambda>a. Ready (Inr (new_conn
          [RxBytes (''220 hi'' @ [newline]), RxBytes (''200 ok'' @ [newline])] []))),
        net_socket_v4 = Inr (), net_bind = (\<lambda>_. Inr ()), net_connect_bound = (\<lambda>_ _. Elapsed)\<rparr>),
      o_failed_at = (\<lambda>_. 0)\<rparr>"

definition quiet_turn :: turn where
  "quiet_turn =
     \<lparr>t_can_bind = (\<lambda>_. True), t_accepts = [], t_others = id, t_net = open_net, t_control_peer = None,
      t_now = 0, t_handshake = (\<lambda>_ _ _. Elapsed), t_start = 0\<rparr>"

lemmas task_evals = bind_task_def give_def stop_def modify_def scoped_def on_stop_def tell_client_def
  client_write_def backend_write_def backend_read_def backend_reply_def

lemmas line_evals = read_line_with_timeout_def read_line_bounded_def read_line_def read_until.simps
  utf8_decode_def ends_with_char_def lit_def ch_def

lemmas wire_evals = utf8_encode_def utf8_char_def char_of_def bit_0

lemma short_noop:
  "has_embedded_line_break (trim_end_matches (\<lambda>c. c = 13 \<or> c = 10) [78, 79, 79, 80, 10]) = False"
  "parse_command (trim_end_matches (\<lambda>c. c = 13 \<or> c = 10) [78, 79, 79, 80, 10]) = Noop"
  by code_simp+

lemma short_turn:
  "session_turn lib short_args quiet_turn
     (s\<lparr>client_conn := short_client\<lparr>tx := ms\<rparr>, backend_conn := new_conn [RxBytes (''200 ok'' @ [newline])] []\<rparr>) =
   (Inl Continue,
    s\<lparr>client_conn := \<lparr>buf = [], rx = [], tx = ms @ [(False, ''200 ok'' @ [newline])], wr = [], secure = False\<rparr>,
      backend_conn := \<lparr>buf = [], rx = [], tx = [(False, ''NOOP'' @ [newline])], wr = [], secure = False\<rparr>\<rparr>)"
  by (simp add: session_turn_def short_args_def short_client_def new_conn_def
      line_evals handle_line_def short_noop forward_command_def task_evals write_all_def wire_evals)

lemma short_loop:
  "session_loop lib short_args (\<lambda>_. quiet_turn) 0
     (s\<lparr>client_conn := short_client\<lparr>tx := ms\<rparr>, backend_conn := new_conn [RxBytes (''200 ok'' @ [newline])] []\<rparr>) =
   s\<lparr>client_conn := \<lparr>buf = [], rx = [], tx = ms @ [(False, ''200 ok'' @ [newline])], wr = [], secure = False\<rparr>,
     backend_conn := \<lparr>buf = [], rx = [], tx = [(False, ''NOOP'' @ [newline])], wr = [], secure = False\<rparr>\<rparr>"
  by (subst session_loop.simps, simp only: short_turn prod.case sum.case flow.case,
    subst session_loop.simps, simp add: session_turn_def line_evals short_args_def)

lemma short_connect:
  "connect_backend short_args short_start (s\<lparr>s_dns := new_dns_cache, s_rotator := None\<rparr>) =
     (True, s\<lparr>s_rotator := None,
        s_dns := [host_key [] 21 \<mapsto> \<lparr>entry_addrs = [SocketAddr (V4 LOCALHOST) 21], resolved_at = 0\<rparr>],
        backend_conn := new_conn [RxBytes (''220 hi'' @ [newline]), RxBytes (''200 ok'' @ [newline])] []\<rparr>)"
  by (simp add: connect_backend_def connect_def connect_inner_def connect_from_def resolve_backend_def
      cached_def resolve_def new_dns_cache_def short_start_def short_args_def default_backend_config_def
      fresh_stream_def) (simp add: new_conn_def)

lemma short_greet:
  "greet lib short_args (s\<lparr>client_conn := short_client, backend_conn :=
       new_conn [RxBytes (''220 hi'' @ [newline]), RxBytes (''200 ok'' @ [newline])] []\<rparr>) =
     (Inr (), s\<lparr>client_conn := short_client\<lparr>tx := [(False, ''220 hi'' @ [newline])]\<rparr>,
        backend_conn := new_conn [RxBytes (''200 ok'' @ [newline])] []\<rparr>)"
  by (simp add: greet_def negotiate_def task_evals line_evals wire_evals write_all_def short_args_def
      short_client_def new_conn_def)

lemma short_session:
  "let s = handle lib short_args store short_start (\<lambda>_. quiet_turn)
       (new_session short_client pm m new_dns_cache None) in
   tx (backend_conn s) = [(False, ''NOOP'' @ [newline])] \<and>
   tx (client_conn s) = [(False, ''220 hi'' @ [newline]), (False, ''200 ok'' @ [newline])]"
proof -
  let ?s = "on_metrics session_started (new_session short_client pm m new_dns_cache None)"
  have a: "short_args\<lparr>arg_tls := map_option (for_session store) (arg_tls short_args)\<rparr> = short_args"
    by (simp add: short_args_def)
  have s: "?s = ?s\<lparr>client_conn := short_client, s_dns := new_dns_cache, s_rotator := None\<rparr>"
    by (simp add: new_session_def)
  have e: "tx (backend_conn (end_session s)) = tx (backend_conn s)"
    "tx (client_conn (end_session s)) = tx (client_conn s)" for s
    by (simp_all add: end_session_def drop_active_pasv_def split: option.splits)
  have c: "connect_backend short_args short_start ?s = (True, ?s\<lparr>s_rotator := None,
        s_dns := [host_key [] 21 \<mapsto> \<lparr>entry_addrs = [SocketAddr (V4 LOCALHOST) 21], resolved_at = 0\<rparr>],
        client_conn := short_client,
        backend_conn := new_conn [RxBytes (''220 hi'' @ [newline]), RxBytes (''200 ok'' @ [newline])] []\<rparr>)"
    by (subst s, subst short_connect) (simp add: new_session_def)
  show ?thesis
    unfolding handle_def a Let_def e c prod.case bool.case short_greet sum.case short_loop by simp
qed

end
