(* ===== verification/Session_Function.thy ===== *)
theory Session_Function
  imports Session
begin

text \<open>
  What a session does for a client: it passes commands to the backend and replies back in lockstep;
  and how an upload is reported.
\<close>

section \<open>Commands and replies in lockstep\<close>

lemma read_line_bounded_is_line:
  assumes "is_line l" and "unread c = utf8_encode l @ rest" and "all_bytes (rx c)"
    and "length (utf8_encode l) \<le> unat m"
  shows "\<exists>c'. read_line_bounded m c = (Ready (Inr (length (utf8_encode l), l)), c') \<and> unread c' = rest
    \<and> all_bytes (rx c') \<and> reads c c'"
proof -
  from read_line_is_line [OF assms] obtain c' where
    r: "read_line (unat m) c = (Ready (Inr (length (utf8_encode l), l)), c')"
    and c': "unread c' = rest" "all_bytes (rx c')" by blast
  have "ends_with_char l 10" using assms(1) by (simp add: is_line_def ends_with_char_def)
  with r have "read_line_bounded m c = (Ready (Inr (length (utf8_encode l), l)), c')"
    by (simp add: read_line_bounded_def)
  with c' read_line_bounded_reads show ?thesis by blast
qed

text \<open>Both connections are up: no error, no stall and no failing write ahead.\<close>

definition both_up :: "session \<Rightarrow> bool" where
  "both_up s \<longleftrightarrow> all_bytes (rx (client_conn s)) \<and> wr (client_conn s) = [] \<and>
     all_bytes (rx (backend_conn s)) \<and> wr (backend_conn s) = []"

text \<open>A line a command can be: complete, within the limit, and forwarded (an upload needs a port).\<close>

definition forwarded :: "session_args \<Rightarrow> ustr \<Rightarrow> bool" where
  "forwarded args line \<longleftrightarrow> is_line line \<and>
     length (utf8_encode line) \<le> unat (max_command_line_bytes (arg_limits args)) \<and> vetted line"

definition fits :: "session_args \<Rightarrow> ustr \<Rightarrow> bool" where
  "fits args reply \<longleftrightarrow> is_line reply \<and>
     length (utf8_encode reply) \<le> unat (max_command_line_bytes (arg_limits args))"

lemma handle_line_forwards:
  "vetted line \<Longrightarrow> active_pasv s = None \<Longrightarrow>
     handle_line lib args t line s = forward_command args line (parse_command (body_of line)) s"
  by (auto simp: handle_line_def Let_def vetted_def body_of_def split: ftp_command.splits)

lemma write_all_up: "wr c = [] \<Longrightarrow> write_all b c = (Inr (), c\<lparr>tx := tx c @ [(secure c, b)]\<rparr>)"
  by (simp add: write_all_def)

abbreviation written :: "ustr \<Rightarrow> conn \<Rightarrow> conn" where
  "written msg c \<equiv> c\<lparr>tx := tx c @ [(secure c, utf8_encode msg)]\<rparr>"

lemma backend_reply_up:
  assumes "fits args reply" and "unread (backend_conn s) = utf8_encode reply @ rest"
    and "all_bytes (rx (backend_conn s))"
  shows "\<exists>c. backend_reply args msg f s = (Inr reply, s\<lparr>backend_conn := c\<rparr>) \<and> unread c = rest
    \<and> all_bytes (rx c) \<and> reads (backend_conn s) c"
proof -
  from read_line_bounded_is_line [OF _ assms(2,3), of "max_command_line_bytes (arg_limits args)"] assms(1)
  obtain c where "read_line_bounded (max_command_line_bytes (arg_limits args)) (backend_conn s) =
      (Ready (Inr (length (utf8_encode reply), reply)), c)"
    and "unread c = rest" "all_bytes (rx c)" "reads (backend_conn s) c" by (auto simp: fits_def)
  with assms(1) line_nonempty [of reply] show ?thesis
    by (intro exI [of _ c]) (simp add: backend_reply_def bind_task_def backend_read_def
        read_line_with_timeout_def give_def fits_def)
qed

text \<open>A line to the backend, its reply, and the reply to the client.\<close>

lemma exchange_up:
  assumes "fits args reply" and "unread (backend_conn s) = utf8_encode reply @ rest" and "both_up s"
  shows "\<exists>c. bind_task (backend_write line) (\<lambda>_.
        bind_task (backend_reply args msg f) (\<lambda>reply.
        bind_task (client_write reply) (\<lambda>_. k reply))) s
      = k reply (s\<lparr>backend_conn := c, client_conn := written reply (client_conn s)\<rparr>)
    \<and> unread c = rest \<and> tx c = tx (backend_conn s) @ [(secure (backend_conn s), utf8_encode line)]
    \<and> secure c = secure (backend_conn s) \<and> all_bytes (rx c) \<and> wr c = []"
proof -
  let ?s = "s\<lparr>backend_conn := written line (backend_conn s)\<rparr>"
  have "unread (backend_conn ?s) = utf8_encode reply @ rest" "all_bytes (rx (backend_conn ?s))"
    using assms(2,3) by (simp_all add: unread_def both_up_def)
  from backend_reply_up [OF assms(1) this, of msg f] obtain c where
    c: "backend_reply args msg f ?s = (Inr reply, ?s\<lparr>backend_conn := c\<rparr>)" "unread c = rest" "all_bytes (rx c)"
      "reads (backend_conn ?s) c" by blast
  have w: "backend_write line s = (Inr (), ?s)"
    using assms(3) by (simp add: backend_write_def write_all_up both_up_def)
  show ?thesis
    using assms(3) c
    by (intro exI [of _ c]) (simp add: bind_task_def w client_write_def write_all_up both_up_def reads_def)
qed

lemma forward_command_relays:
  assumes "fits args reply" and "unread (backend_conn s) = utf8_encode reply @ rest" and "both_up s"
  shows "\<exists>s'. forward_command args line command s =
        (Inl (if command = Quit then Break else Continue), s')
    \<and> client_conn s' = written reply (client_conn s)
    \<and> tx (backend_conn s') = tx (backend_conn s) @ [(secure (backend_conn s), utf8_encode line)]
    \<and> unread (backend_conn s') = rest \<and> secure (backend_conn s') = secure (backend_conn s)
    \<and> both_up s' \<and> active_pasv s' = active_pasv s"
  using exchange_up [OF assms, of line "''421 Service not available''" Break
      "\<lambda>_. if command = Quit then stop Break else stop Continue"] assms(3)
  by (auto simp: forward_command_def stop_def both_up_def)

lemma turn_forwards:
  assumes "forwarded args line" and "fits args reply" and "both_up s" and "active_pasv s = None"
    and "unread (client_conn s) = utf8_encode line @ later"
    and "unread (backend_conn s) = utf8_encode reply @ rest"
  shows "\<exists>s'. session_turn lib args t s =
        (Inl (if parse_command (body_of line) = Quit then Break else Continue), s')
    \<and> tx (client_conn s') = tx (client_conn s) @ [(secure (client_conn s), utf8_encode reply)]
    \<and> tx (backend_conn s') = tx (backend_conn s) @ [(secure (backend_conn s), utf8_encode line)]
    \<and> unread (client_conn s') = later \<and> unread (backend_conn s') = rest
    \<and> secure (client_conn s') = secure (client_conn s) \<and> secure (backend_conn s') = secure (backend_conn s)
    \<and> both_up s' \<and> active_pasv s' = None"
proof -
  from read_line_bounded_is_line [OF _ assms(5), of "max_command_line_bytes (arg_limits args)"] assms(1,3)
  obtain c where r: "read_line_bounded (max_command_line_bytes (arg_limits args)) (client_conn s) =
      (Ready (Inr (length (utf8_encode line), line)), c)"
    and c: "unread c = later" "all_bytes (rx c)" "reads (client_conn s) c"
    by (auto simp: forwarded_def both_up_def)
  let ?s = "s\<lparr>client_conn := c\<rparr>"
  have up: "both_up ?s" using assms(3) c by (simp add: both_up_def reads_def)
  have ub: "unread (backend_conn ?s) = utf8_encode reply @ rest" using assms(6) by simp
  from forward_command_relays [OF assms(2) ub up, of line "parse_command (body_of line)"]
  obtain s' where s': "forward_command args line (parse_command (body_of line)) ?s =
        (Inl (if parse_command (body_of line) = Quit then Break else Continue), s')"
    and f: "client_conn s' = c\<lparr>tx := tx c @ [(secure c, utf8_encode reply)]\<rparr>"
      "tx (backend_conn s') = tx (backend_conn s) @ [(secure (backend_conn s), utf8_encode line)]"
      "unread (backend_conn s') = rest" "secure (backend_conn s') = secure (backend_conn s)"
      "both_up s'" "active_pasv s' = None" using assms(4) by auto
  have "session_turn lib args t s = handle_line lib args t line ?s"
    using r assms(1) line_nonempty [of line] by (simp add: session_turn_def forwarded_def)
  also have "\<dots> = forward_command args line (parse_command (body_of line)) ?s"
    using assms(1,4) by (intro handle_line_forwards) (simp_all add: forwarded_def)
  finally show ?thesis using s' f c by (intro exI [of _ s']) (simp add: reads_def unread_def)
qed

text \<open>The end of the client's stream ends the session with nothing written.\<close>

lemma loop_at_eof:
  assumes "both_up s" and "unread (client_conn s) = []" and "max_command_line_bytes (arg_limits args) \<noteq> 0"
  shows "tx (client_conn (session_loop lib args ts k s)) = tx (client_conn s)
    \<and> backend_conn (session_loop lib args ts k s) = backend_conn s"
proof -
  let ?m = "max_command_line_bytes (arg_limits args)"
  obtain bs c where r: "read_until (unat ?m) [] (client_conn s) = (Ready (Inr bs), c)"
    using read_until_delivers assms(1) by (metis both_up_def)
  with read_until_line [OF r] assms(2) have "bs = []" by auto
  with r have rl: "read_line (unat ?m) (client_conn s) = (Ready (Inr (0, [])), c)"
    by (simp add: read_line_def utf8_decode_def)
  then have "tx c = tx (client_conn s)" using read_line_reads [of "client_conn s" "unat ?m"] by (simp add: reads_def)
  moreover have "session_turn lib args (ts k) s = (Inl Break, s\<lparr>client_conn := c\<rparr>)"
    using rl assms(3) by (simp add: session_turn_def read_line_bounded_def unat_eq_0)
  ultimately show ?thesis by (subst (1 2) session_loop.simps) simp
qed



section \<open>How an upload is reported\<close>

text \<open>A completion reply that confirms the upload.\<close>

definition confirms :: "ustr \<Rightarrow> bool" where
  "confirms completion \<longleftrightarrow> starts_with (body_of completion) (lit ''2'')"

text \<open>The counters after an upload with that completion reply.\<close>

definition counted_upload :: "bool \<Rightarrow> metrics \<Rightarrow> metrics \<Rightarrow> bool" where
  "counted_upload ok m m' \<longleftrightarrow>
     uploads_started_total m' = sat_add (uploads_started_total m) 1 \<and>
     uploads_completed_total m' = (if ok then sat_add (uploads_completed_total m) 1 else uploads_completed_total m) \<and>
     uploads_failed_total m' = (if ok then uploads_failed_total m else sat_add (uploads_failed_total m) 1) \<and>
     uploads_active m' = uploads_active m \<and> sessions_active m' = sessions_active m"

lemma start_transfer_up:
  assumes "fits args reply" and "unread (backend_conn s) = utf8_encode reply @ rest" and "both_up s"
    and "arg_tls args = None \<or> starts_with reply (lit ''1'')"
  shows "\<exists>c. start_transfer args line s =
        (Inr (), s\<lparr>backend_conn := c, client_conn := written reply (client_conn s)\<rparr>)
    \<and> unread c = rest \<and> tx c = tx (backend_conn s) @ [(secure (backend_conn s), utf8_encode line)]
    \<and> secure c = secure (backend_conn s) \<and> all_bytes (rx c) \<and> wr c = []"
  using exchange_up [OF assms(1-3), of line "''421 Service not available''" Break
      "\<lambda>reply. if arg_tls args \<noteq> None \<and> \<not> starts_with reply (lit ''1'') then stop Continue else give ()"] assms(4)
  by (auto simp: start_transfer_def give_def)

text \<open>The upload records its relay, if the data connection could be used.\<close>

definition relays_of ::
  "rustls \<Rightarrow> session_args \<Rightarrow> turn \<Rightarrow> data_channel \<Rightarrow> (bool \<times> relay_outcome) list" where
  "relays_of lib args t channel =
     (case secure_data lib args t (backend_data channel) of
        Inl _ \<Rightarrow> []
      | Inr (tls, d) \<Rightarrow>
          [(tls, relay_bidirectional (from_secs (data_idle_timeout_secs (arg_timeouts args))) (t_start t)
              (client_data channel) d)])"

lemma run_relay_effect:
  "\<exists>m. run_relay args t (client_data channel) (secure_data lib args t (backend_data channel)) s =
      s\<lparr>transfers := transfers s @ relays_of lib args t channel, s_metrics := m\<rparr>
    \<and> uploads_started_total m = uploads_started_total (s_metrics s)
    \<and> uploads_completed_total m = uploads_completed_total (s_metrics s)
    \<and> uploads_failed_total m = uploads_failed_total (s_metrics s)
    \<and> uploads_active m = uploads_active (s_metrics s) \<and> sessions_active m = sessions_active (s_metrics s)"
proof (cases "secure_data lib args t (backend_data channel)")
  case (Inl e)
  then show ?thesis by (intro exI [of _ "s_metrics s"]) (simp add: run_relay_def relays_of_def)
next
  case (Inr x)
  obtain tls d where x: "x = (tls, d)" by fastforce
  let ?o = "relay_bidirectional (from_secs (data_idle_timeout_secs (arg_timeouts args))) (t_start t)
      (client_data channel) d"
  show ?thesis
    using Inr x
    by (intro exI [of _ "case relayed ?o of Inr (n, _) \<Rightarrow> add_upload_bytes (of_nat n) (s_metrics s) | Inl _ \<Rightarrow> s_metrics s"])
      (auto simp: run_relay_def relays_of_def Let_def add_upload_bytes_def split: sum.splits)
qed

lemma finish_upload_up:
  assumes "wr (client_conn s) = []"
  shows "finish_upload completion s =
    (Inl Continue, (on_metrics (if confirms completion then attempt_succeeded else drop_upload_attempt False) s)
       \<lparr>client_conn := written completion (client_conn s)\<rparr>)"
  using assms by (simp add: finish_upload_def confirms_def body_of_def bind_task_def modify_def scoped_def
      client_write_def write_all_up stop_def)

lemma run_upload_steps:
  assumes "start_transfer args line (on_metrics upload_attempted s) = (Inr (), s1)"
    and "r = secure_data lib args t (backend_data channel)"
    and "run_relay args t (client_data channel) r (on_metrics upload_started (observe_data_error r s1)) = s2"
    and "backend_reply args ''426 Connection closed; transfer aborted'' Break s2 = (Inr completion, s3)"
    and "wr (client_conn s3) = []"
  shows "run_upload lib args t line channel s = (Inl Continue, on_metrics drop_upload_guard
      ((on_metrics (if confirms completion then attempt_succeeded else drop_upload_attempt False) s3)
         \<lparr>client_conn := written completion (client_conn s3)\<rparr>))"
  using assms by (simp add: run_upload_def Let_def bind_task_def modify_def on_stop_def scoped_def
      transfer_def finish_upload_up)

lemma observe_data_error_frame:
  "client_conn (observe_data_error r s) = client_conn s" "backend_conn (observe_data_error r s) = backend_conn s"
  "transfers (observe_data_error r s) = transfers s"
  "uploads_started_total (s_metrics (observe_data_error r s)) = uploads_started_total (s_metrics s)"
  "uploads_completed_total (s_metrics (observe_data_error r s)) = uploads_completed_total (s_metrics s)"
  "uploads_failed_total (s_metrics (observe_data_error r s)) = uploads_failed_total (s_metrics s)"
  "uploads_active (s_metrics (observe_data_error r s)) = uploads_active (s_metrics s)"
  "sessions_active (s_metrics (observe_data_error r s)) = sessions_active (s_metrics s)"
  by (simp_all add: observe_data_error_def observe_backend_io_error_def backend_data_connection_failed_def
      split: sum.splits)

text \<open>C9: an upload is reported as the backend reports it. When the backend answers \<^verbatim>\<open>STOR\<close> (with a
  preliminary reply, if TLS is on) and later sends a completion reply, the client receives exactly
  these two replies and the backend exactly the client's line; the upload is counted as started,
  and as completed if the completion reply is positive and as failed otherwise, whatever became
  of the relay; the gauges are as before and the session goes on.\<close>

theorem upload_is_reported_by_the_backend:
  assumes "fits args reply" and "fits args completion" and "both_up s"
    and "unread (backend_conn s) = utf8_encode reply @ utf8_encode completion @ rest"
    and "arg_tls args = None \<or> starts_with reply (lit ''1'')"
  shows "\<exists>s'. run_upload lib args t line channel s = (Inl Continue, s')
    \<and> tx (client_conn s') = tx (client_conn s) @
        [(secure (client_conn s), utf8_encode reply), (secure (client_conn s), utf8_encode completion)]
    \<and> tx (backend_conn s') = tx (backend_conn s) @ [(secure (backend_conn s), utf8_encode line)]
    \<and> unread (backend_conn s') = rest
    \<and> transfers s' = transfers s @ relays_of lib args t channel
    \<and> counted_upload (confirms completion) (s_metrics s) (s_metrics s')"
proof -
  let ?r = "secure_data lib args t (backend_data channel)"
  let ?s0 = "on_metrics upload_attempted s"
  have "unread (backend_conn ?s0) = utf8_encode reply @ utf8_encode completion @ rest" "both_up ?s0"
    using assms(3,4) by (simp_all add: both_up_def)
  from start_transfer_up [OF assms(1) this assms(5), of line] obtain c s1 where
    s1: "start_transfer args line ?s0 = (Inr (), s1)"
      "s1 = ?s0\<lparr>backend_conn := c, client_conn := written reply (client_conn s)\<rparr>"
    and c: "unread c = utf8_encode completion @ rest" "all_bytes (rx c)"
      "tx c = tx (backend_conn s) @ [(secure (backend_conn s), utf8_encode line)]" by auto
  from run_relay_effect [of args t channel lib "on_metrics upload_started (observe_data_error ?r s1)"]
  obtain m s2 where s2: "run_relay args t (client_data channel) ?r (on_metrics upload_started (observe_data_error ?r s1)) = s2"
      "client_conn s2 = written reply (client_conn s)" "backend_conn s2 = c"
      "transfers s2 = transfers s @ relays_of lib args t channel" "s_metrics s2 = m"
    and m: "uploads_started_total m = sat_add (uploads_started_total (s_metrics s)) 1"
      "uploads_completed_total m = uploads_completed_total (s_metrics s)"
      "uploads_failed_total m = uploads_failed_total (s_metrics s)"
      "uploads_active m = uploads_active (s_metrics s) + 1" "sessions_active m = sessions_active (s_metrics s)"
    by (auto simp: observe_data_error_frame s1(2) upload_started_def upload_attempted_def)
  from backend_reply_up [OF assms(2), of s2 rest "''426 Connection closed; transfer aborted''" Break] c s2(3)
  obtain c' s3 where s3: "backend_reply args ''426 Connection closed; transfer aborted'' Break s2 = (Inr completion, s3)"
      "s3 = s2\<lparr>backend_conn := c'\<rparr>" and c': "unread c' = rest" "reads c c'" by auto
  have "wr (client_conn s3) = []" using assms(3) s2 s3 by (simp add: both_up_def)
  from run_upload_steps [OF s1(1) refl s2(1) s3(1) this] show ?thesis
    using s2 s3(2) c c' m
    by (auto simp: counted_upload_def drop_upload_guard_def attempt_succeeded_def drop_upload_attempt_def reads_def)
qed

text \<open>
  A slow upload over a data connection on which, as always, the backend sends nothing: the relay
  is cut off by its idle time before the last byte, and the upload counts as completed.
\<close>

definition slow_channel :: data_channel where
  "slow_channel =
     \<lparr>client_data = \<lparr>arrivals = [(from_secs 30, DataBytes ''a''), (from_secs 60, DataBytes ''b''),
        (from_secs 90, DataBytes ''c''), (from_secs 91, DataBytes [])], data_writes = [], shutdown_result = Inr ()\<rparr>,
      backend_data = \<lparr>arrivals = [(from_secs 92, DataBytes [])], data_writes = [], shutdown_result = Inr ()\<rparr>,
      data_slot = None\<rparr>"

definition confirming :: session where
  "confirming = (new_session (new_conn [] []) (new_port_manager default_port_range) new_metrics new_dns_cache None)
     \<lparr>backend_conn := new_conn [RxBytes (''150 ok'' @ [newline]), RxBytes (''226 ok'' @ [newline])] []\<rparr>"

lemma slow_relay:
  "relays_of accepting_tls short_args quiet_turn slow_channel =
     [(False, \<lparr>relayed = Inl TimedOut, relay_finished = from_secs 60, to_backend = ''ab'', to_client = []\<rparr>)]"
  by (simp add: relays_of_def secure_data_def short_args_def default_timeouts_def quiet_turn_def slow_channel_def
      from_secs_def relay_bidirectional_def copy_with_idle_timeout_def copy_loop.simps Let_def
      RELAY_BUFFER_BYTES_def delivered_by_def)

theorem upload_is_reported_by_the_backend_witness:
  "let s' = snd (run_upload accepting_tls short_args quiet_turn (lit ''STOR f'' @ [10]) slow_channel confirming)
   in uploads_completed_total (s_metrics s') = 1 \<and> uploads_failed_total (s_metrics s') = 0 \<and>
      map (relayed \<circ> snd) (transfers s') = [Inl TimedOut] \<and> map (to_backend \<circ> snd) (transfers s') = [''ab'']"
proof -
  let ?reply = "lit ''150 ok'' @ [10]" and ?completion = "lit ''226 ok'' @ [10]"
  have f: "fits short_args ?reply" "fits short_args ?completion"
    by (simp_all add: fits_def is_line_def is_scalar_def short_args_def lit_def ch_def utf8_encode_def utf8_char_def)
  have up: "both_up confirming" by (simp add: both_up_def confirming_def new_session_def new_conn_def)
  have u: "unread (backend_conn confirming) = utf8_encode ?reply @ utf8_encode ?completion @ []"
    by (simp add: confirming_def new_conn_def unread_def lit_def ch_def wire_evals)
  have ok: "confirms ?completion" by (simp add: confirms_def body_of_def lit_def ch_def trim_end_matches_def)
  have "arg_tls short_args = None \<or> starts_with ?reply (lit ''1'')" by (simp add: short_args_def)
  from upload_is_reported_by_the_backend [OF f up u this, of accepting_tls quiet_turn "lit ''STOR f'' @ [10]" slow_channel]
    ok show ?thesis
    by (auto simp: slow_relay counted_upload_def confirming_def new_session_def new_metrics_def sat_add_def)
qed

section \<open>Input that is refused\<close>

text \<open>The reply to a command line that is not taken: none came in time, too long or not text, a line
  break inside it, or a verb that is not supported.\<close>

fun refusal :: "(nat \<times> ustr) io_result timed \<Rightarrow> string" where
  "refusal Elapsed = ''421 Idle timeout, closing control connection''"
| "refusal (Ready (Inl _)) = ''500 Command line too long''"
| "refusal (Ready (Inr (_, line))) =
     (if has_embedded_line_break (body_of line) then ''501 Syntax error in parameters or arguments''
      else ''502 Command not implemented'')"

fun is_refused :: "(nat \<times> ustr) io_result timed \<Rightarrow> bool" where
  "is_refused Elapsed = True"
| "is_refused (Ready (Inl e)) = (e = InvalidData)"
| "is_refused (Ready (Inr (n, line))) =
     (n \<noteq> 0 \<and> (has_embedded_line_break (body_of line) \<or> (\<exists>w. parse_command (body_of line) = Unknown w)))"

fun is_line_read :: "(nat \<times> ustr) io_result timed \<Rightarrow> bool" where
  "is_line_read (Ready (Inr _)) = True"
| "is_line_read _ = False"

text \<open>C10: input a session does not accept never has an effect beyond its reply. A command line
  that is too long or not valid text, that contains a line break, or whose verb is not supported,
  and a client that sends nothing for the idle time, each get exactly their one reply; nothing of
  it reaches the backend, no port, slot or transfer changes; after a refused line the session goes
  on, in the other cases it ends.\<close>

theorem refused_input_has_no_effect:
  assumes "read_line_bounded (max_command_line_bytes (arg_limits args)) (client_conn s) = (q, c)"
    and "is_refused q" and "wr c = []"
  shows "session_turn lib args t s =
    (Inl (if is_line_read q then Continue else Break),
     s\<lparr>client_conn := c\<lparr>tx := tx c @ [(secure c, utf8_encode (reply_line (refusal q)))]\<rparr>,
       s_metrics := (if q = Elapsed then session_idle_timed_out (s_metrics s) else s_metrics s)\<rparr>)"
proof -
  have w: "bind_task (client_write msg) (\<lambda>_. stop Continue) (s\<lparr>client_conn := c\<rparr>) =
      (Inl Continue, s\<lparr>client_conn := written msg c\<rparr>)" for msg
    using assms(3) by (simp add: bind_task_def client_write_def write_all_up stop_def)
  have t: "tell_client msg (s\<lparr>client_conn := c\<rparr>) = s\<lparr>client_conn := written msg c\<rparr>" for msg
    using assms(3) by (simp add: tell_client_def write_all_up)
  consider "q = Elapsed" | "q = Ready (Inl InvalidData)" | n line where "q = Ready (Inr (n, line))" "n \<noteq> 0"
      "has_embedded_line_break (body_of line) \<or> (\<exists>w. parse_command (body_of line) = Unknown w)"
    using assms(2) by (cases q rule: is_refused.cases) auto
  then show ?thesis
  proof cases
    case 1
    then show ?thesis using assms(1,3) by (simp add: session_turn_def tell_client_def write_all_up)
  next
    case 2
    then show ?thesis using assms(1) t by (simp add: session_turn_def)
  next
    case (3 n line)
    then show ?thesis
      using assms(1) w by (auto simp: session_turn_def handle_line_def Let_def body_of_def)
  qed
qed

theorem refused_input_has_no_effect_witness:
  "tx (client_conn (snd (session_turn accepting_tls short_args quiet_turn
     (new_session (new_conn [RxStall] []) (new_port_manager default_port_range) new_metrics new_dns_cache None)))) =
   [(False, utf8_encode (reply_line ''421 Idle timeout, closing control connection''))]"
proof -
  let ?s = "new_session (new_conn [RxStall] []) (new_port_manager default_port_range) new_metrics new_dns_cache None"
  have r: "read_line_bounded (max_command_line_bytes (arg_limits short_args)) (client_conn ?s) = (Elapsed, new_conn [] [])"
    by (simp add: short_args_def new_session_def new_conn_def line_evals)
  have "wr (new_conn [] []) = []" by (simp add: new_conn_def)
  from refused_input_has_no_effect [OF r _ this, of accepting_tls quiet_turn] show ?thesis
    by (simp add: new_conn_def)
qed

end
