(* ===== verification/Ip_Limiter.thy ===== *)
theory Ip_Limiter
  imports Rust_Net
begin

text \<open>
  \<^verbatim>\<open>src/server/ip_limiter.rs\<close>: the cap on concurrent connections per client address. Proved:
  the limiter's counts are exactly the numbers of live guards per address, no address ever holds
  more than the maximum, a slot is refused only at the maximum, the counter never overflows or
  underflows, and a drained limiter keeps no entry.
\<close>

record ip_limiter =
  counts :: "ip_addr \<rightharpoonup> usize"
  max_per_ip :: usize

text \<open>
  \<^verbatim>\<open>IpConnectionGuard\<close>: \<open>counted\<close> is whether it refers to the limiter's counts (a guard of a
  disabled limiter does not).
\<close>

record ip_guard =
  counted :: bool
  guard_ip :: ip_addr

definition new_ip_limiter :: "usize \<Rightarrow> ip_limiter" where
  "new_ip_limiter max_n = \<lparr>counts = Map.empty, max_per_ip = max_n\<rparr>"

definition try_acquire :: "ip_limiter \<Rightarrow> ip_addr \<Rightarrow> ip_guard option \<times> ip_limiter" where
  "try_acquire l ip =
     (if max_per_ip l = 0 then (Some \<lparr>counted = False, guard_ip = ip\<rparr>, l)
      else let count = (case counts l ip of Some n \<Rightarrow> n | None \<Rightarrow> 0);
               l1 = l\<lparr>counts := (counts l)(ip \<mapsto> count)\<rparr> in
           if count \<ge> max_per_ip l then (None, l1)
           else (Some \<lparr>counted = True, guard_ip = ip\<rparr>, l1\<lparr>counts := (counts l1)(ip \<mapsto> count + 1)\<rparr>))"

definition drop_ip_guard :: "ip_guard \<Rightarrow> ip_limiter \<Rightarrow> ip_limiter" where
  "drop_ip_guard g l =
     (if \<not> counted g then l
      else case counts l (guard_ip g) of
             None \<Rightarrow> l
           | Some n \<Rightarrow>
               let n' = n - 1 in
               if n' = 0 then l\<lparr>counts := (counts l)(guard_ip g := None)\<rparr>
               else l\<lparr>counts := (counts l)(guard_ip g \<mapsto> n')\<rparr>)"

section \<open>The contract\<close>

definition guards_of :: "ip_addr \<Rightarrow> ip_guard multiset \<Rightarrow> nat" where
  "guards_of ip gs = size (filter_mset (\<lambda>g. guard_ip g = ip) gs)"

text \<open>
  With a limit, every live guard is counted and the entry of an address is its number of live
  guards, at least one and at most the limit; no guard, no entry. Without a limit nothing is
  counted.
\<close>

fun entry_ok :: "usize \<Rightarrow> usize option \<Rightarrow> nat \<Rightarrow> bool" where
  "entry_ok m None k = (k = 0)"
| "entry_ok m (Some n) k = (unat n = k \<and> 0 < k \<and> n \<le> m)"

definition limiter_inv :: "usize \<Rightarrow> ip_limiter \<Rightarrow> ip_guard multiset \<Rightarrow> bool" where
  "limiter_inv m l gs \<longleftrightarrow> max_per_ip l = m \<and>
     (if m = 0 then counts l = Map.empty \<and> (\<forall>g \<in># gs. \<not> counted g)
      else (\<forall>g \<in># gs. counted g) \<and> (\<forall>ip. entry_ok m (counts l ip) (guards_of ip gs)))"

lemma guards_of_add [simp]:
  "guards_of ip (add_mset g gs) = (if guard_ip g = ip then Suc (guards_of ip gs) else guards_of ip gs)"
  "guards_of ip {#} = 0"
  by (simp_all add: guards_of_def)

lemma unat_succ:
  assumes "(n :: usize) < m"
  shows "unat (n + 1) = Suc (unat n)" and "n + 1 \<le> m"
proof -
  have "unat n < unat m" and "unat m < 18446744073709551616"
    using assms by (simp_all add: word_less_nat_alt)
  then have "unat n + 1 < 18446744073709551616" by linarith
  then show u: "unat (n + 1) = Suc (unat n)" by (simp add: unat_word_ariths(1))
  then show "n + 1 \<le> m" using \<open>unat n < unat m\<close> by (simp add: word_le_nat_alt)
qed

lemma limiter_entry: "limiter_inv m l gs \<Longrightarrow> m \<noteq> 0 \<Longrightarrow> entry_ok m (counts l ip) (guards_of ip gs)"
  by (simp add: limiter_inv_def)

text \<open>The outcome of a request: a slot below the limit, a refusal at the limit.\<close>

lemma try_acquire_outcome:
  assumes i: "limiter_inv m l gs" and m: "m \<noteq> 0"
  shows "try_acquire l ip =
    (if guards_of ip gs = unat m then (None, l)
     else (Some \<lparr>counted = True, guard_ip = ip\<rparr>,
           l\<lparr>counts := (counts l)(ip \<mapsto> of_nat (Suc (guards_of ip gs)))\<rparr>))
    \<and> guards_of ip gs \<le> unat m"
proof (cases "counts l ip")
  case None
  with limiter_entry [OF i m, of ip] i m show ?thesis
    by (auto simp: try_acquire_def limiter_inv_def unat_eq_zero)
next
  case (Some n)
  with limiter_entry [OF i m, of ip] have n: "unat n = guards_of ip gs" "n \<le> m" by simp_all
  then have "m \<le> n \<longleftrightarrow> guards_of ip gs = unat m" by (auto simp: word_le_nat_alt)
  moreover have "n + 1 = of_nat (Suc (guards_of ip gs))" using n(1) [symmetric] by simp
  moreover have "(counts l)(ip \<mapsto> n) = counts l" using Some by (rule map_upd_triv)
  ultimately show ?thesis
    using i m n Some by (auto simp: try_acquire_def limiter_inv_def word_le_nat_alt add.commute)
qed

lemma try_acquire_Some:
  assumes i: "limiter_inv m l gs" and a: "try_acquire l ip = (Some g, l')"
  shows "limiter_inv m l' (add_mset g gs)"
proof (cases "m = 0")
  case True
  with i a show ?thesis by (auto simp: limiter_inv_def try_acquire_def)
next
  case False
  let ?k = "guards_of ip gs"
  from try_acquire_outcome [OF i False, of ip] a have g: "g = \<lparr>counted = True, guard_ip = ip\<rparr>"
    and l': "l' = l\<lparr>counts := (counts l)(ip \<mapsto> of_nat (Suc ?k))\<rparr>" and "?k < unat m"
    by (auto split: if_splits)
  then have "?k < 18446744073709551616" and lt: "?k < unat m"
    using unat_usize_less [of m] by linarith+
  then have "(of_nat ?k :: usize) < m" and k: "unat (of_nat ?k :: usize) = ?k"
    by (simp_all add: word_less_nat_alt unat_of_nat)
  from unat_succ [OF this(1)] k have "entry_ok m (Some (of_nat (Suc ?k))) (Suc ?k)"
    by (simp add: add.commute)
  with i g l' False show ?thesis by (simp add: limiter_inv_def del: entry_ok.simps)
qed

lemma try_acquire_None: "limiter_inv m l gs \<Longrightarrow> try_acquire l ip = (None, l') \<Longrightarrow> l' = l"
  using try_acquire_outcome [of m l gs ip]
  by (cases "m = 0") (auto simp: limiter_inv_def try_acquire_def split: if_splits)

lemma drop_ip_guard_inv:
  assumes i: "limiter_inv m l (add_mset g gs)"
  shows "limiter_inv m (drop_ip_guard g l) gs"
proof (cases "m = 0")
  case True
  with i show ?thesis by (simp add: limiter_inv_def drop_ip_guard_def)
next
  case False
  let ?ip = "guard_ip g"
  have e: "entry_ok m (counts l ip) (guards_of ip (add_mset g gs))" for ip
    by (rule limiter_entry [OF i False])
  from e [of ?ip] obtain n where n: "counts l ?ip = Some n"
    and un: "unat n = Suc (guards_of ?ip gs)" and le: "n \<le> m"
    by (cases "counts l ?ip") auto
  then have "n \<noteq> 0" by auto
  then have n1: "unat (n - 1) = guards_of ?ip gs" using un by (simp add: unat_minus_one)
  have drop: "drop_ip_guard g l =
      l\<lparr>counts := (counts l)(?ip := if n - 1 = 0 then None else Some (n - 1))\<rparr>"
    using i False n by (simp add: drop_ip_guard_def limiter_inv_def Let_def)
  have "entry_ok m (counts (drop_ip_guard g l) ip) (guards_of ip gs)" for ip
  proof (cases "ip = ?ip")
    case True
    then show ?thesis
      using n1 un le by (auto simp: drop word_le_nat_alt unat_eq_zero [symmetric])
  next
    case other: False
    then show ?thesis using e [of ip] by (auto simp: drop)
  qed
  with i False drop show ?thesis by (simp add: limiter_inv_def)
qed

interpretation ip_pool: guard_pool try_acquire drop_ip_guard "limiter_inv m" for m
  by unfold_locales (auto simp: try_acquire_Some drop_ip_guard_inv dest: try_acquire_None)

text \<open>After any sequence of connections and disconnections under a limit, no address holds
  more connections than the limit, an address is refused if and only if it holds exactly the
  limit, whatever the other addresses do, and a limiter with no connection left has no entry
  left.\<close>

theorem connections_per_ip_capped:
  assumes "max_n \<noteq> 0"
    and "pool_run try_acquire drop_ip_guard (new_ip_limiter max_n, []) es = (l, gs)"
  shows "guards_of ip (mset gs) \<le> unat max_n
    \<and> (fst (try_acquire l ip) = None \<longleftrightarrow> guards_of ip (mset gs) = unat max_n)
    \<and> (gs = [] \<longrightarrow> counts l = Map.empty)"
proof -
  have "limiter_inv max_n (new_ip_limiter max_n) (mset [])"
    by (simp add: limiter_inv_def new_ip_limiter_def)
  then have i: "limiter_inv max_n l (mset gs)" by (rule ip_pool.run_inv [OF _ assms(2)])
  have "counts l ip = None" if "gs = []" for ip
    using limiter_entry [OF i assms(1), of ip] that by (cases "counts l ip") auto
  then show ?thesis using try_acquire_outcome [OF i assms(1), of ip] by (auto intro: ext)
qed

theorem connections_per_ip_capped_witness:
  "pool_run try_acquire drop_ip_guard (new_ip_limiter 1, [])
     [Acquire (V4 LOCALHOST), Acquire (V4 LOCALHOST)] =
     (\<lparr>counts = [V4 LOCALHOST \<mapsto> 1], max_per_ip = 1\<rparr>, [\<lparr>counted = True, guard_ip = V4 LOCALHOST\<rparr>])
   \<and> fst (try_acquire \<lparr>counts = [V4 LOCALHOST \<mapsto> 1], max_per_ip = 1\<rparr> (V4 LOCALHOST)) = None"
proof -
  have run: "pool_run try_acquire drop_ip_guard (new_ip_limiter 1, [])
     [Acquire (V4 LOCALHOST), Acquire (V4 LOCALHOST)] =
     (\<lparr>counts = [V4 LOCALHOST \<mapsto> 1], max_per_ip = 1\<rparr>, [\<lparr>counted = True, guard_ip = V4 LOCALHOST\<rparr>])"
    by (simp add: pool_run_def new_ip_limiter_def try_acquire_def)
  show ?thesis
    using connections_per_ip_capped [OF _ run, of "V4 LOCALHOST"] run by simp
qed

lemma guards_of_load: "guards_of ip gs = load_of guard_ip gs ip"
  by (simp add: guards_of_def load_of_def)

interpretation ip_admission: admission_pool try_acquire drop_ip_guard "\<lambda>l gs. m \<noteq> 0 \<and> limiter_inv m l gs"
  guard_ip "unat m" for m
proof unfold_locales
  fix l gs ip g l'
  assume "m \<noteq> 0 \<and> limiter_inv m l gs" and "try_acquire l ip = (Some g, l')"
  then show "guard_ip g = ip" using try_acquire_outcome [of m l gs ip] by (auto split: if_splits)
qed (use try_acquire_outcome in \<open>auto simp: guards_of_load split: if_splits dest: ip_pool.acquire_none ip_pool.acquire_some ip_pool.release\<close>)

text \<open>A limit of zero disables the check.\<close>

lemma zero_limit_never_refuses: "max_per_ip l = 0 \<Longrightarrow> fst (try_acquire l ip) \<noteq> None"
  by (simp add: try_acquire_def)

end
