(* ===== verification/Backend_Selector.thy ===== *)
theory Backend_Selector
  imports Gateway_Config
begin

text \<open>
  \<^verbatim>\<open>src/backend/selector.rs\<close>: round-robin choice of the backend of a session. The shared
  counter is a machine word that wraps. Proved: construction fails exactly on an empty list, a
  selection is always an entry of the list (also across the wrap of the counter), and successive
  selections cycle through the list in order, so every block of as many selections as there are
  backends takes each position once.
\<close>

record backend_selector =
  selector_backends :: "backend_config list"
  selector_next :: usize

text \<open>\<open>None\<close> is the panic of the \<^verbatim>\<open>assert!\<close>.\<close>

definition new_selector :: "backend_config list \<Rightarrow> backend_selector option" where
  "new_selector bs =
     (if bs = [] then None else Some \<lparr>selector_backends = bs, selector_next = 0\<rparr>)"

definition select_next :: "backend_selector \<Rightarrow> backend_config \<times> backend_selector" where
  "select_next s =
     (let index = unat (selector_next s) mod length (selector_backends s) in
      (selector_backends s ! index, s\<lparr>selector_next := selector_next s + 1\<rparr>))"

fun select_many :: "nat \<Rightarrow> backend_selector \<Rightarrow> backend_config list \<times> backend_selector" where
  "select_many 0 s = ([], s)"
| "select_many (Suc n) s =
     (let (b, s1) = select_next s; (bs, s2) = select_many n s1 in (b # bs, s2))"

text \<open>Every selection indexes inside the list, whatever the counter.\<close>

lemma select_next_mem:
  "selector_backends s \<noteq> [] \<Longrightarrow> fst (select_next s) \<in> set (selector_backends s)"
  by (simp add: select_next_def Let_def)

lemma select_next_frame [simp]: "selector_backends (snd (select_next s)) = selector_backends s"
  by (simp add: select_next_def Let_def)

lemma select_many_at:
  assumes "unat (selector_next s) + n \<le> 18446744073709551616"
  shows "fst (select_many n s) =
    map (\<lambda>i. selector_backends s ! (i mod length (selector_backends s)))
      [unat (selector_next s) ..< unat (selector_next s) + n]"
  using assms
proof (induction n arbitrary: s)
  case (Suc n)
  let ?s = "snd (select_next s)" and ?k = "unat (selector_next s)"
  show ?case
  proof (cases "n = 0")
    case True
    then show ?thesis by (simp add: select_next_def Let_def)
  next
    case False
    with Suc.prems have "Suc ?k < 18446744073709551616" by linarith
    then have k: "unat (selector_next ?s) = Suc ?k"
      by (simp add: select_next_def Let_def unat_word_ariths(1))
    have "fst (select_many (Suc n) s) = fst (select_next s) # fst (select_many n ?s)"
      by (simp add: case_prod_beta Let_def)
    also have "fst (select_many n ?s) =
        map (\<lambda>i. selector_backends s ! (i mod length (selector_backends s))) [Suc ?k ..< Suc ?k + n]"
      using Suc.IH [of ?s] Suc.prems k by simp
    finally show ?thesis
      by (simp add: upt_conv_Cons select_next_def Let_def del: upt_Suc)
  qed
qed simp

text \<open>C36: for any non-empty backend list, the sessions of a freshly started gateway are given
  the backends in list order, starting over after the last one, for as many sessions as the
  64-bit counter can count.\<close>

theorem round_robin:
  assumes "new_selector bs = Some s" and "n \<le> 2 ^ 64"
  shows "fst (select_many n s) = map (\<lambda>i. bs ! (i mod length bs)) [0 ..< n] \<and>
    set (fst (select_many n s)) \<subseteq> set bs"
proof -
  from assms(1) have s: "bs \<noteq> []" "s = \<lparr>selector_backends = bs, selector_next = 0\<rparr>"
    by (auto simp: new_selector_def split: if_splits)
  then have "fst (select_many n s) = map (\<lambda>i. bs ! (i mod length bs)) [0 ..< n]"
    using select_many_at [of s n] assms(2) by simp
  then show ?thesis using s(1) by auto
qed

theorem round_robin_witness:
  "new_selector [default_backend_config, default_backend_config\<lparr>backend_port := 22\<rparr>] \<noteq> None \<and>
   map backend_port (fst (select_many 3 (the (new_selector
     [default_backend_config, default_backend_config\<lparr>backend_port := 22\<rparr>])))) = [21, 22, 21]"
proof -
  let ?bs = "[default_backend_config, default_backend_config\<lparr>backend_port := 22\<rparr>]"
  have s: "new_selector ?bs = Some (the (new_selector ?bs))" by (simp add: new_selector_def)
  have up: "[0 ..< 3] = [0, 1, 2 :: nat]" by (simp add: upt_rec)
  have "(3 :: nat) \<le> 2 ^ 64" by simp
  from round_robin [OF s this] show ?thesis by (simp add: up default_backend_config_def new_selector_def
        numeral_2_eq_2)
qed

end
