(* ===== verification/Session_Guards.thy ===== *)
theory Session_Guards
  imports Session
begin

text \<open>
  A session gives back everything it takes: its passive port, its data slots, and its entries in
  the gauges, on every way it can end. The proof carries the multisets of guards that are live
  outside the session through every task, by the contracts of the pools.
\<close>

section \<open>What each pool promises a session\<close>

lemmas metrics_quiet [intro] = metric_act.simps(4,6-10) [THEN metrics_pool.acquire_none [rotated]]

lemmas metrics_taken = metric_act.simps(1-3) [THEN metrics_pool.acquire_some [rotated]]

text \<open>How an attempt will end is open until it does.\<close>

lemma metrics_attempt:
  "metrics_inv m (add_mset (AttemptGuard a) M) \<longleftrightarrow> metrics_inv m (add_mset (AttemptGuard b) M)"
  by (cases a; cases b) (simp_all add: metrics_inv_def running_def)

lemma attempt_returned:
  "metrics_inv m (add_mset (AttemptGuard a) M) \<Longrightarrow> metrics_inv (drop_upload_attempt False m) M"
  "metrics_inv m (add_mset (AttemptGuard a) M) \<Longrightarrow> metrics_inv (attempt_succeeded m) M"
  using metrics_pool.release [of m "AttemptGuard False" M] metrics_pool.release [of m "AttemptGuard True" M]
    metrics_attempt [of m a M]
  unfolding drop_metric_guard.simps by presburger+

lemmas metrics_returned = attempt_returned
  metrics_pool.release [where g = SessionGuard, unfolded drop_metric_guard.simps]
  metrics_pool.release [where g = UploadGuard, unfolded drop_metric_guard.simps]

lemma accept_quiet: "metrics_inv m M \<Longrightarrow> accept_client_data expected events m = (r, m') \<Longrightarrow> metrics_inv m' M"
  by (induction expected events m rule: accept_client_data.induct)
    (auto split: option.splits if_splits)

definition slot_set :: "(ustr \<times> ipv4_addr) option \<Rightarrow> (ustr \<times> ipv4_addr) multiset" where
  "slot_set g = (case g of None \<Rightarrow> {#} | Some g \<Rightarrow> {#g#})"

text \<open>The other sessions leave as many slots taken as they found.\<close>

definition fair_others :: "turn \<Rightarrow> bool" where
  "fair_others t \<longleftrightarrow> (\<forall>r R. slots_inv r R \<longrightarrow> slots_inv (t_others t r) R)"

lemma acquire_slot_taken:
  assumes "slots_inv r R" and "fair_others t"
    and "acquire_data_slot (t_others t) b cap src r = (g, r')"
  shows "slots_inv r' (R + slot_set g)"
proof -
  let ?r = "t_others t (slot_enter b cap src r)"
  have "slots_inv (slot_enter b cap src r) R"
    using slot_pool.acquire_none [OF assms(1), of "EnterSlot b cap src"] by simp
  then have i: "slots_inv ?r R" using assms(2) by (simp add: fair_others_def)
  obtain x q where x: "slot_grant b cap src ?r = (x, q)" by fastforce
  show ?thesis
  proof (cases x)
    case None
    with x have "slots_inv q R" using slot_pool.acquire_none [OF i, of "GrantSlot b cap src"] by simp
    then have "slots_inv (slot_elapsed b src q) R"
      using slot_pool.acquire_none [of q R "ElapseSlot b src"] by simp
    with None x assms(3) show ?thesis by (auto simp: acquire_data_slot_def slot_set_def)
  next
    case (Some y)
    with x have "slots_inv q (add_mset y R)" by (intro slot_grant_Some [OF i]) simp
    with Some x assms(3) show ?thesis by (auto simp: acquire_data_slot_def slot_set_def)
  qed
qed

lemma report_slots [simp]: "slots_inv (snd (report_connect_failure src e now r)) R \<longleftrightarrow> slots_inv r R"
  by (simp add: report_connect_failure_def Let_def mark_unhealthy_at_def slots_inv_def slot_of_def)

section \<open>Accounting\<close>

text \<open>
  \<open>ps\<close>, \<open>ms\<close> and \<open>rs\<close> are the guards that are live, and \<open>a\<close> the announced port of the session.
\<close>

definition held ::
  "u16 multiset \<Rightarrow> metric_guard multiset \<Rightarrow> (ustr \<times> ipv4_addr) multiset \<Rightarrow> u16 option \<Rightarrow> session \<Rightarrow> bool" where
  "held ps ms rs a s \<longleftrightarrow> port_pool_inv (s_ports s) ps \<and> metrics_inv (s_metrics s) ms \<and>
     (\<forall>r. s_rotator s = Some r \<longrightarrow> slots_inv r rs) \<and> (s_rotator s = None \<longrightarrow> rs = {#}) \<and> active_pasv s = a"

lemma held_frame [simp]:
  "held ps ms rs a (s\<lparr>client_conn := c\<rparr>) = held ps ms rs a s"
  "held ps ms rs a (s\<lparr>backend_conn := c\<rparr>) = held ps ms rs a s"
  "held ps ms rs a (s\<lparr>transfers := tr\<rparr>) = held ps ms rs a s"
  "held ps ms rs a (tell_client msg s) = held ps ms rs a s"
  by (simp_all add: held_def tell_client_def)

lemma held_metrics: "held ps ms rs a s \<Longrightarrow> (metrics_inv (s_metrics s) ms \<Longrightarrow> metrics_inv m ms') \<Longrightarrow>
    held ps ms' rs a (s\<lparr>s_metrics := m\<rparr>)"
  by (simp add: held_def)

lemma held_rotator: "held ps ms rs a s \<Longrightarrow> (\<And>r. slots_inv r rs \<Longrightarrow> slots_inv (f r) rs) \<Longrightarrow>
    held ps ms rs a (on_rotator f s)"
  by (auto simp: held_def)

lemma held_client_write [task_rules]: "keeps (held ps ms rs a) (client_write msg)"
  by (rule keepsI) (auto simp: client_write_def split: prod.splits sum.splits)

lemma held_backend_write [task_rules]: "keeps (held ps ms rs a) (backend_write msg)"
  by (rule keepsI) (auto simp: backend_write_def split: prod.splits sum.splits intro!: held_metrics)

lemma held_backend_read [task_rules]: "keeps (held ps ms rs a) (backend_read args)"
  by (rule keepsI) (auto simp: backend_read_def split: prod.splits sum.splits intro!: held_metrics)

lemma held_backend_reply [task_rules]: "keeps (held ps ms rs a) (backend_reply args msg f)"
  unfolding backend_reply_def by (auto intro!: task_rules)

lemma held_start_transfer [task_rules]: "keeps (held ps ms rs a) (start_transfer args line)"
  unfolding start_transfer_def by (auto intro!: task_rules)

lemma held_run_relay: "held ps ms rs a s \<Longrightarrow> held ps ms rs a (run_relay args t c r s)"
  by (auto simp: run_relay_def Let_def split: sum.splits intro!: held_metrics)

lemma held_transfer [task_rules]: "keeps (held ps ms rs a) (transfer args t c r)"
  unfolding transfer_def by (auto intro!: task_rules held_run_relay)

lemma held_pass_on: "keeps (held ps ms rs a) (bind_task (client_write msg) (\<lambda>_. stop Continue) :: unit task)"
  by (auto intro!: task_rules)

lemma held_finish_upload:
  "triple (held ps (add_mset (AttemptGuard x) ms) rs a) (finish_upload completion) (\<lambda>_. held ps ms rs a)
     (held ps ms rs a)"
proof -
  have ok: "triple (held ps (add_mset (AttemptGuard x) ms) rs a) (modify (on_metrics attempt_succeeded))
      (\<lambda>_. held ps ms rs a) (held ps ms rs a)"
    by (rule triple_modify) (auto intro: held_metrics metrics_returned)
  have failed: "triple (held ps (add_mset (AttemptGuard x) ms) rs a)
      (scoped (bind_task (client_write completion) (\<lambda>_. stop Continue)) (on_metrics (drop_upload_attempt False)))
      (\<lambda>_ :: unit. held ps ms rs a) (held ps ms rs a)"
    by (rule triple_scoped [OF held_pass_on]) (auto intro: held_metrics metrics_returned)
  show ?thesis unfolding finish_upload_def 
    using triple_bind [OF ok held_pass_on [of _ _ _ _ completion]] failed by simp
qed

lemma held_attempt_on_stop:
  "keeps (held ps (add_mset (AttemptGuard x) ms) rs a) t \<Longrightarrow>
   triple (held ps (add_mset (AttemptGuard x) ms) rs a) (on_stop t (on_metrics (drop_upload_attempt False)))
     (\<lambda>_. held ps (add_mset (AttemptGuard x) ms) rs a) (held ps ms rs a)"
  by (erule triple_on_stop) (auto intro: held_metrics metrics_returned)

lemma held_run_upload [task_rules]: "keeps (held ps ms rs a) (run_upload lib args t line channel)"
proof -
  let ?h = "\<lambda>gs. held ps (gs + ms) rs a" and ?a = "AttemptGuard False"
  let ?r = "secure_data lib args t (backend_data channel)"
  have m1: "triple (?h {#}) (modify (on_metrics upload_attempted)) (\<lambda>_. ?h {#?a#}) (?h {#})"
    by (rule triple_modify) (auto intro: held_metrics metrics_taken)
  have m2: "triple (?h {#?a#}) (on_stop (start_transfer args line) (on_metrics (drop_upload_attempt False)))
      (\<lambda>_. ?h {#?a#}) (?h {#})"
    using held_attempt_on_stop [OF held_start_transfer, of ps False ms rs a args line] by simp
  have m3: "triple (?h {#?a#}) (modify (observe_data_error ?r)) (\<lambda>_. ?h {#?a#}) (?h {#})"
    by (rule triple_modify) (auto simp: observe_data_error_def split: sum.splits intro!: held_metrics)
  have m4: "triple (?h {#?a#}) (modify (on_metrics upload_started)) (\<lambda>_. ?h {#UploadGuard, ?a#}) (?h {#})"
    by (rule triple_modify) (auto intro: held_metrics metrics_taken)
  have t: "triple (?h {#UploadGuard, ?a#}) (on_stop (transfer args t (client_data channel) ?r)
      (on_metrics (drop_upload_attempt False))) (\<lambda>_. ?h {#UploadGuard, ?a#}) (?h {#UploadGuard#})"
    using held_attempt_on_stop [OF held_transfer, of ps False "add_mset UploadGuard ms" rs a]
    by (simp add: add_mset_commute)
  have f: "triple (?h {#UploadGuard, ?a#}) (finish_upload completion) (\<lambda>_. ?h {#UploadGuard#}) (?h {#UploadGuard#})"
    for completion
    using held_finish_upload [of ps False "add_mset UploadGuard ms" rs a completion] by (simp add: add_mset_commute)
  have m5: "triple (?h {#UploadGuard, ?a#})
      (scoped (bind_task (on_stop (transfer args t (client_data channel) ?r) (on_metrics (drop_upload_attempt False)))
        finish_upload) (on_metrics drop_upload_guard)) (\<lambda>_. ?h {#}) (?h {#})"
    by (rule triple_scoped [OF triple_bind [OF t f]]) (auto intro: held_metrics metrics_returned)
  show ?thesis
    using triple_bind [OF m1 triple_bind [OF m2 triple_bind [OF m3 triple_bind [OF m4 m5]]]]
    by (simp add: run_upload_def Let_def)
qed

section \<open>Data channels\<close>

lemma held_claim_slot:
  assumes "fair_others t"
  shows "triple (held ps ms rs a) (claim_slot args t)
    (\<lambda>slot. held ps ms (rs + (case slot of Some g \<Rightarrow> slot_set g | None \<Rightarrow> {#})) a) (held ps ms rs a)"
proof -
  have "case claim_slot args t s of (Inl f, s') \<Rightarrow> held ps ms rs a s'
      | (Inr slot, s') \<Rightarrow> held ps ms (rs + (case slot of Some g \<Rightarrow> slot_set g | None \<Rightarrow> {#})) a s'"
    if h: "held ps ms rs a s" for s
  proof (cases "s_rotator s = None \<or> source_ip s = None")
    case True
    then show ?thesis using h by (auto simp: claim_slot_def slot_set_def split: option.splits)
  next
    case False
    then obtain r src where r: "s_rotator s = Some r" "source_ip s = Some src" by auto
    obtain g r' where g: "acquire_data_slot (t_others t) (backend_key args)
        (range_len (passive_ports (arg_backend args))) src r = (g, r')" by fastforce
    have "slots_inv r rs" using h r by (simp add: held_def)
    from acquire_slot_taken [OF this assms g] show ?thesis
      using h r g by (cases g) (simp_all add: claim_slot_def held_def slot_set_def)
  qed
  then show ?thesis by (simp add: triple_def)
qed

lemma held_release_slot: "held ps ms (rs + slot_set g) a s \<Longrightarrow> held ps ms rs a (release_slot g s)"
  using slot_pool.release
  by (cases g) (auto simp: release_slot_def slot_set_def held_def)

lemma observe_connect_quiet: "metrics_inv m M \<Longrightarrow> metrics_inv (observe_connect_error err m) M"
  by (auto simp: observe_connect_error_def split: option.splits)

lemma held_data_connect_failed [task_rules]: "keeps (held ps ms rs a) (data_connect_failed t err)"
proof -
  have m: "keeps (held ps ms rs a) (modify (on_metrics (\<lambda>m. observe_connect_error e (backend_pasv_failed m))))"
    "keeps (held ps ms rs a) (modify (on_metrics (\<lambda>m. observe_connect_error e (backend_data_connection_failed m))))"
    for e
    by (auto intro!: triple_modify held_metrics observe_connect_quiet)
  have q: "keeps (held ps ms rs a) (modify (on_metrics backend_pasv_failed))"
    by (auto intro!: triple_modify held_metrics)
  have r: "keeps (held ps ms rs a) (modify (\<lambda>s. case source_ip s of None \<Rightarrow> s
      | Some src \<Rightarrow> on_rotator (\<lambda>r. snd (report_connect_failure src e (t_now t) r)) s))" for e
    by (auto intro!: triple_modify held_rotator split: option.splits)
  show ?thesis
    unfolding data_connect_failed_def
    by (cases err) (auto intro!: keeps_bind m q r triple_give)
qed

lemma held_open_data [task_rules]: "keeps (held ps ms rs a) (open_data args t)"
  by (rule keepsI) (auto simp: open_data_def split: prod.splits)

definition channel_slot :: "data_channel option \<Rightarrow> (ustr \<times> ipv4_addr) multiset" where
  "channel_slot c = (case c of None \<Rightarrow> {#} | Some chan \<Rightarrow> slot_set (data_slot chan))"

text \<open>What holds of the outcome of opening a channel, with the slot that the channel holds.\<close>

abbreviation held_channel ::
  "u16 multiset \<Rightarrow> metric_guard multiset \<Rightarrow> (ustr \<times> ipv4_addr) multiset \<Rightarrow> u16 option
    \<Rightarrow> data_channel option \<times> bool \<Rightarrow> session \<Rightarrow> bool" where
  "held_channel ps ms rs a \<equiv>
     (\<lambda>(channel, lost) s. (lost \<longrightarrow> channel = None) \<and> held ps ms (rs + channel_slot channel) a s)"

lemma held_failed_channel: "triple (held ps ms (rs + slot_set slot) a)
    (scoped (bind_task (data_connect_failed t err) (\<lambda>lost. give (None, lost))) (release_slot slot))
    (held_channel ps ms rs a) (held ps ms rs a)"
  by (rule triple_scoped [where mid = "\<lambda>x s. fst x = None \<and> held ps ms (rs + slot_set slot) a s"
        and mid' = "held ps ms (rs + slot_set slot) a"],
      rule triple_bind [OF held_data_connect_failed])
    (auto intro!: triple_give held_release_slot simp: channel_slot_def)

lemma held_opened_channel: "triple (held ps ms (rs + slot_set slot) a) (bind_task (open_data args t) (\<lambda>r.
    case r of Inr data \<Rightarrow> give (Some \<lparr>client_data = stream, backend_data = data, data_slot = slot\<rparr>, False)
    | Inl err \<Rightarrow> scoped (bind_task (data_connect_failed t err) (\<lambda>lost. give (None, lost))) (release_slot slot)))
    (held_channel ps ms rs a) (held ps ms rs a)"
proof (rule triple_bind)
  show "triple (held ps ms (rs + slot_set slot) a) (open_data args t)
      (\<lambda>_. held ps ms (rs + slot_set slot) a) (held ps ms rs a)"
    by (auto simp: triple_def open_data_def split: prod.splits)
  fix r
  show "triple (held ps ms (rs + slot_set slot) a)
      (case r of Inr data \<Rightarrow> give (Some \<lparr>client_data = stream, backend_data = data, data_slot = slot\<rparr>, False)
       | Inl err \<Rightarrow> scoped (bind_task (data_connect_failed t err) (\<lambda>lost. give (None, lost))) (release_slot slot))
      (held_channel ps ms rs a) (held ps ms rs a)"
  proof (cases r)
    case (Inr data)
    then show ?thesis by (auto intro!: triple_give simp: channel_slot_def)
  qed (simp only: sum.case held_failed_channel)
qed

lemma held_claimed_channel:
  assumes "fair_others t"
  shows "triple (held ps ms rs a) (bind_task (claim_slot args t) (\<lambda>slot.
    case slot of None \<Rightarrow> give (None, False)
    | Some slot \<Rightarrow> bind_task (open_data args t) (\<lambda>r.
        case r of Inr data \<Rightarrow> give (Some \<lparr>client_data = stream, backend_data = data, data_slot = slot\<rparr>, False)
        | Inl err \<Rightarrow> scoped (bind_task (data_connect_failed t err) (\<lambda>lost. give (None, lost))) (release_slot slot))))
    (held_channel ps ms rs a) (held ps ms rs a)"
proof (rule triple_bind [OF held_claim_slot [OF assms]])
  fix slot
  show "triple (held ps ms (rs + (case slot of None \<Rightarrow> {#} | Some g \<Rightarrow> slot_set g)) a)
      (case slot of None \<Rightarrow> give (None, False)
       | Some slot \<Rightarrow> bind_task (open_data args t) (\<lambda>r.
          case r of Inr data \<Rightarrow> give (Some \<lparr>client_data = stream, backend_data = data, data_slot = slot\<rparr>, False)
          | Inl err \<Rightarrow> scoped (bind_task (data_connect_failed t err) (\<lambda>lost. give (None, lost))) (release_slot slot)))
      (held_channel ps ms rs a) (held ps ms rs a)"
  proof (cases slot)
    case None
    then show ?thesis by (auto intro!: triple_give simp: channel_slot_def)
  qed (simp only: option.case held_opened_channel)
qed

lemma held_open_channel:
  assumes "fair_others t"
  shows "triple (held ps ms rs a) (open_channel args t) (held_channel ps ms rs a) (held ps ms rs a)"
  unfolding triple_def
proof (intro allI impI)
  fix s
  assume h: "held ps ms rs a s"
  obtain q m where q: "accept_client_data (if require_data_ip_match (arg_limits args)
      then Some (sa_ip (peer_addr args)) else None) (t_accepts t) (s_metrics s) = (q, m)" by fastforce
  then have h': "held ps ms rs a (s\<lparr>s_metrics := m\<rparr>)" using h by (auto intro: held_metrics accept_quiet)
  show "case open_channel args t s of (Inl f, s') \<Rightarrow> held ps ms rs a s' | (Inr x, s') \<Rightarrow> held_channel ps ms rs a x s'"
    using h' held_claimed_channel [OF assms, unfolded triple_def, rule_format, OF h']
    by (auto simp: open_channel_def q channel_slot_def split: timed.splits sum.splits)
qed

section \<open>Turns\<close>

definition act :: "u16 option \<Rightarrow> u16 multiset" where
  "act a = (case a of None \<Rightarrow> {#} | Some p \<Rightarrow> {#p#})"

text \<open>Between turns the session holds its announced port and nothing else.\<close>

definition settled ::
  "u16 multiset \<Rightarrow> metric_guard multiset \<Rightarrow> (ustr \<times> ipv4_addr) multiset \<Rightarrow> session \<Rightarrow> bool" where
  "settled ps ms rs s \<longleftrightarrow> (\<exists>a. held (ps + act a) ms rs a s)"

lemma settledI: "held (ps + act a) ms rs a s \<Longrightarrow> settled ps ms rs s"
  by (auto simp: settled_def)

lemma held_drop_port: "held (add_mset p ps) ms rs a s \<Longrightarrow> held ps ms rs a (on_ports (drop_port_guard p) s)"
  using port_pool.release by (auto simp: held_def)

lemma held_handle_stor:
  assumes "fair_others t"
  shows "triple (held (ps + act (Some port)) ms rs (Some port)) (handle_stor lib args t line port)
    (\<lambda>_. held ps ms rs None) (held ps ms rs None)"
proof -
  let ?h = "held (add_mset port ps) ms rs None"
  have take: "triple (held (ps + act (Some port)) ms rs (Some port)) (modify (\<lambda>s. s\<lparr>active_pasv := None\<rparr>))
      (\<lambda>_. ?h) ?h"
    by (rule triple_modify) (simp add: held_def act_def)
  have upload: "triple (held (add_mset port ps) ms (rs + slot_set (data_slot chan)) None)
      (scoped (run_upload lib args t line chan) (release_slot (data_slot chan))) (\<lambda>_. ?h) ?h" for chan
    by (rule triple_scoped [OF held_run_upload]) (auto intro: held_release_slot)
  have rest: "triple ((\<lambda>(channel, lost) s. (lost \<longrightarrow> channel = None) \<and>
        held (add_mset port ps) ms (rs + channel_slot channel) None s) x)
      (case x of (channel, control_lost) \<Rightarrow>
        if control_lost
        then bind_task (modify (tell_client (reply_line ''421 Service not available''))) (\<lambda>_. stop Break)
        else (case channel of
            Some chan \<Rightarrow> scoped (run_upload lib args t line chan) (release_slot (data_slot chan))
          | None \<Rightarrow> bind_task (client_write (reply_line ''425 Can't open data connection'')) (\<lambda>_. stop Continue)))
      (\<lambda>_. ?h) ?h" for x
  proof (cases x)
    case (Pair channel lost)
    consider "lost" "channel = None" | "lost" "channel \<noteq> None" | "\<not> lost" "channel = None"
      | chan where "\<not> lost" "channel = Some chan" by blast
    then show ?thesis
    proof cases
      case 1
      have "keeps ?h (bind_task (modify (tell_client (reply_line ''421 Service not available''))) (\<lambda>_. stop Break) :: unit task)"
        by (auto intro!: task_rules)
      with 1 Pair show ?thesis by (simp add: channel_slot_def)
    next
      case 2
      then show ?thesis using Pair by (auto simp: triple_def)
    next
      case 3
      then show ?thesis using Pair held_pass_on by (simp add: channel_slot_def)
    next
      case 4
      then show ?thesis using Pair upload by (simp add: channel_slot_def)
    qed
  qed
  show ?thesis
    unfolding handle_stor_def
    by (rule triple_scoped [OF triple_bind [OF take triple_bind [OF held_open_channel [OF assms] rest]]])
      (auto intro: held_drop_port)
qed

lemma held_drop_active: "held (ps + act a) ms rs a s \<Longrightarrow> held ps ms rs None (drop_active_pasv s)"
  using port_pool.release
  by (cases a) (auto simp: drop_active_pasv_def held_def act_def)

lemma held_allocate:
  "triple (held ps ms rs None) (allocate_port t) (\<lambda>port. held (ps + act port) ms rs None) (held ps ms rs None)"
proof -
  have "case allocate_port t s of (Inl f, s') \<Rightarrow> held ps ms rs None s'
      | (Inr port, s') \<Rightarrow> held (ps + act port) ms rs None s'" if h: "held ps ms rs None s" for s
  proof -
    obtain port m where al: "allocate (s_ports s) (t_can_bind t) = (port, m)" by fastforce
    have "port_pool_inv m (ps + act port)"
      using h al port_pool.acquire_none port_pool.acquire_some
      by (cases port) (auto simp: held_def act_def)
    with h al show ?thesis by (simp add: allocate_port_def held_def)
  qed
  then show ?thesis by (simp add: triple_def)
qed

lemma settled_handle_pasv: "triple (held (ps + act a) ms rs a) (handle_pasv args t command)
    (\<lambda>_. settled ps ms rs) (settled ps ms rs)"
proof -
  let ?none = "held ps ms rs None"
  have d: "triple (held (ps + act a) ms rs a) (modify drop_active_pasv) (\<lambda>_. ?none) (settled ps ms rs)"
    by (rule triple_modify) (rule held_drop_active)
  have fin: "?none s \<Longrightarrow> settled ps ms rs s" for s by (rule settledI [of _ None]) (simp add: act_def)
  have al: "triple ?none (allocate_port t) (\<lambda>port. held (ps + act port) ms rs None) (settled ps ms rs)"
    by (rule triple_weaken [OF held_allocate]) (auto intro: fin)
  have w: "triple (held (add_mset p ps) ms rs None) (on_stop (client_write msg) (on_ports (drop_port_guard p)))
      (\<lambda>_. held (add_mset p ps) ms rs None) (settled ps ms rs)" for p msg
    by (rule triple_on_stop [OF held_client_write]) (rule fin, rule held_drop_port)
  have set: "triple (held (add_mset p ps) ms rs None)
      (bind_task (modify (\<lambda>s. s\<lparr>active_pasv := Some p\<rparr>)) (\<lambda>_. stop Continue))
      (\<lambda>_ :: unit. settled ps ms rs) (settled ps ms rs)" for p
    by (auto simp: triple_def bind_task_def modify_def stop_def held_def act_def intro!: settledI [of _ "Some p"])
  have none: "triple ?none (bind_task (client_write msg) (\<lambda>_. stop Continue) :: unit task)
      (\<lambda>_. settled ps ms rs) (settled ps ms rs)" for msg
    by (rule triple_weaken [OF held_pass_on]) (auto intro: fin)
  have rest: "triple (held (ps + act port) ms rs None) (case port of
         Some p \<Rightarrow>
           bind_task
             (on_stop
                (client_write (if command = Epsv then epsv_reply p
                               else pasv_reply (passive_address (arg_passive args)) p))
                (on_ports (drop_port_guard p))) (\<lambda>_.
           bind_task (modify (\<lambda>s. s\<lparr>active_pasv := Some p\<rparr>)) (\<lambda>_. stop Continue))
       | None \<Rightarrow>
           bind_task (client_write (reply_line ''425 Can't open data connection''))
             (\<lambda>_. stop Continue)) (\<lambda>_ :: unit. settled ps ms rs) (settled ps ms rs)" for port
    using none triple_bind [OF w set] by (cases port) (simp_all add: act_def)
  show ?thesis unfolding handle_pasv_def by (rule triple_bind [OF d triple_bind [OF al rest]])
qed

lemma held_forward_command: "keeps (held ps ms rs a) (forward_command args line command)"
  unfolding forward_command_def by (auto intro!: task_rules)

lemma settled_handle_line:
  assumes "settled ps ms rs s" and "fair_others t" and "handle_line lib args t line s = (r, s')"
  shows "settled ps ms rs s'"
proof -
  from assms(1) obtain a where h: "held (ps + act a) ms rs a s" by (auto simp: settled_def)
  then have a: "active_pasv s = a" by (simp add: held_def)
  have pass: "settled ps ms rs s'" if "bind_task (client_write msg) (\<lambda>_. stop Continue) s = (r, s')" for msg
    using keepsD [OF held_pass_on h that] by (rule settledI)
  have fwd: "settled ps ms rs s'" if "forward_command args line command s = (r, s')" for command
    using keepsD [OF held_forward_command h that] by (rule settledI)
  have pasv: "settled ps ms rs s'" if "handle_pasv args t command s = (r, s')" for command
    using settled_handle_pasv [unfolded triple_def, rule_format, OF h, of args t command] that
    by (auto split: sum.splits)
  have stor: "settled ps ms rs s'" if "handle_stor lib args t line port s = (r, s')" "a = Some port" for port
  proof -
    have "held ps ms rs None s'"
      using held_handle_stor [OF assms(2), unfolded triple_def, rule_format, of ps port ms rs s lib args line] h that
      by (auto split: sum.splits)
    then show ?thesis by (intro settledI [of _ None]) (simp add: act_def)
  qed
  show ?thesis
    using assms(3) a pass fwd pasv stor
    by (auto simp: handle_line_def Let_def split: if_splits ftp_command.splits option.splits)
qed

lemma settled_frame [simp]:
  "settled ps ms rs (s\<lparr>client_conn := c\<rparr>) = settled ps ms rs s"
  "settled ps ms rs (s\<lparr>backend_conn := c\<rparr>) = settled ps ms rs s"
  "settled ps ms rs (tell_client msg s) = settled ps ms rs s"
  by (simp_all add: settled_def)

lemma settled_metrics: "settled ps ms rs s \<Longrightarrow> (metrics_inv (s_metrics s) ms \<Longrightarrow> metrics_inv m ms) \<Longrightarrow>
    settled ps ms rs (s\<lparr>s_metrics := m\<rparr>)"
  by (auto simp: settled_def intro: held_metrics)

lemma settled_turn:
  assumes "settled ps ms rs s" and "fair_others t" and "session_turn lib args t s = (r, s')"
  shows "settled ps ms rs s'"
proof -
  have h: "settled ps ms rs s'" if "handle_line lib args t line (s\<lparr>client_conn := c\<rparr>) = (r, s')" for line c
    using settled_handle_line [OF _ assms(2) that] assms(1) by simp
  have "settled ps ms rs (on_metrics session_idle_timed_out (s\<lparr>client_conn := c\<rparr>))" for c
    by (rule settled_metrics) (use assms(1) in auto)
  with assms(1,3) h show ?thesis
    by (auto simp: session_turn_def split: prod.splits timed.splits sum.splits if_splits)
qed

lemma settled_loop: "settled ps ms rs s \<Longrightarrow> (\<And>k. fair_others (ts k)) \<Longrightarrow> settled ps ms rs (session_loop lib args ts k s)"
proof (induction lib args ts k s rule: session_loop.induct)
  case (1 lib args ts k s)
  obtain r s' where t: "session_turn lib args (ts k) s = (r, s')" by fastforce
  from settled_turn [OF 1(2) 1(3) t] have "settled ps ms rs s'" .
  with 1 t show ?case by (subst session_loop.simps) (auto split: sum.splits flow.splits)
qed

section \<open>Whole sessions\<close>

lemma settled_connect_sources:
  "connect_sources args opn k sources s = (ok, s') \<Longrightarrow> settled ps ms rs s \<Longrightarrow> settled ps ms rs s'"
proof (induction args opn k sources s rule: connect_sources.induct)
  case (2 args opn k src sources s)
  have "settled ps ms rs (s\<lparr>s_dns := d\<rparr>)" "settled ps ms rs (s\<lparr>s_dns := d, backend_conn := c, source_ip := i\<rparr>)"
    "settled ps ms rs (on_rotator (\<lambda>r. snd (report_connect_failure src e now r))
       (on_metrics (observe_backend_io_error e) (s\<lparr>s_dns := d\<rparr>)))" for d c i e now
    using "2.prems"(2) by (auto simp: settled_def held_def)
  with 2 show ?case by (auto split: prod.splits sum.splits)
qed simp

lemma settled_connect_backend:
  "connect_backend args opn s = (ok, s') \<Longrightarrow> settled ps ms rs s \<Longrightarrow> settled ps ms rs s'"
  by (auto simp: connect_backend_def settled_connect_sources split: option.splits prod.splits sum.splits)
    (auto simp: settled_def held_def)

lemma settled_greet:
  assumes "settled ps ms rs s" and "greet lib args s = (r, s')"
  shows "settled ps ms rs s'"
proof -
  from assms(1) obtain a where h: "held (ps + act a) ms rs a s" by (auto simp: settled_def)
  have n: "keeps (held ps ms rs a) (negotiate lib args)" for ps
    by (rule keepsI) (auto simp: negotiate_def split: option.splits prod.splits sum.splits intro!: held_metrics)
  have "keeps (held ps ms rs a) (greet lib args)" for ps
    unfolding greet_def by (intro task_rules n)
  from keepsD [OF this h assms(2)] show ?thesis by (rule settledI)
qed

lemma handle_settles:
  assumes "port_pool_inv pm ps" and "metrics_inv m ms"
    and "\<forall>q. r = Some q \<longrightarrow> slots_inv q rs" and "r = None \<longrightarrow> rs = {#}"
    and "\<forall>k. fair_others (ts k)"
    and "s = handle lib args store opn ts (new_session client pm m d r)"
  shows "held ps ms rs None s"
proof -
  let ?args = "args\<lparr>arg_tls := map_option (for_session store) (arg_tls args)\<rparr>"
  let ?s = "on_metrics session_started (new_session client pm m d r)"
  let ?ms = "add_mset SessionGuard ms"
  have s0: "settled ps ?ms rs ?s"
    using assms(1-4) metrics_taken(1) [of m ms]
    by (intro settledI [of _ None]) (auto simp: held_def act_def new_session_def)
  obtain ok s1 where c: "connect_backend ?args opn ?s = (ok, s1)" by fastforce
  have s1: "settled ps ?ms rs s1" by (rule settled_connect_backend [OF c s0])
  obtain g s2 where g: "greet lib ?args s1 = (g, s2)" by fastforce
  have s2: "settled ps ?ms rs s2" by (rule settled_greet [OF s1 g])
  let ?q = "if \<not> ok then tell_client (reply_line ''421 Service not available'') s1
    else if isl g then s2 else session_loop lib ?args ts 0 s2"
  have "settled ps ?ms rs ?q" using s1 s2 settled_loop [OF s2, of ts lib ?args 0] assms(5) by simp
  moreover have "s = end_session ?q"
    using c g assms(6) by (cases ok; cases g) (simp_all add: handle_def Let_def)
  ultimately obtain q a where q: "held (ps + act a) ?ms rs a q" "s = end_session q" by (auto simp: settled_def)
  then show ?thesis
    using held_metrics [OF held_drop_active [OF q(1)] metrics_returned(3)] by (simp add: end_session_def)
qed

text \<open>C5: a session gives back what it takes, on every path by which it can end. Whatever the
  client, the backend, the network and the operating system do, when \<^verbatim>\<open>handle\<close> returns the ports
  in use are those that were in use before, the gauges of open sessions and running transfers are
  what they were, every upload it started is counted as completed or failed, and every data slot
  has as many free permits as the slots held by others leave.\<close>

theorem session_returns_its_guards:
  assumes "port_pool_inv pm ps" and "metrics_inv m ms"
    and "\<forall>q. r = Some q \<longrightarrow> slots_inv q rs" and "r = None \<longrightarrow> rs = {#}"
    and "\<forall>k. fair_others (ts k)"
    and "s = handle lib args store opn ts (new_session client pm m d r)"
  shows "in_use (s_ports s) = in_use pm
    \<and> sessions_active (s_metrics s) = sessions_active m \<and> uploads_active (s_metrics s) = uploads_active m
    \<and> (uploads_started_total (s_metrics s) \<noteq> - 1 \<longrightarrow>
        unat (uploads_started_total (s_metrics s)) = unat (uploads_completed_total (s_metrics s))
          + unat (uploads_failed_total (s_metrics s)) + running ms)
    \<and> (\<forall>q b src sl. s_rotator s = Some q \<longrightarrow> slot_of b src q = Some sl \<longrightarrow>
        permits sl + count rs (b, src) = unat (slot_capacity sl))"
proof -
  have h: "held ps ms rs None s" by (rule handle_settles [OF assms])
  then have "permits sl + count rs (b, src) = unat (slot_capacity sl)"
    if "s_rotator s = Some q" "slot_of b src q = Some sl" for q b src sl
    using that by (intro slots_invD(1) [of q]) (simp_all add: held_def)
  moreover have "port_pool_inv (s_ports s) ps" "metrics_inv (s_metrics s) ms" using h by (simp_all add: held_def)
  ultimately show ?thesis using assms(1,2) unfolding port_pool_inv_def metrics_inv_def by auto
qed

theorem session_returns_its_guards_witness:
  "let m = s_metrics (handle accepting_tls short_args 0 short_start (\<lambda>_. quiet_turn)
       (new_session short_client (new_port_manager default_port_range) new_metrics new_dns_cache None)) in
   sessions_active m = 0 \<and> uploads_active m = 0"
proof -
  have p: "port_pool_inv (new_port_manager default_port_range) {#}"
    by (simp add: port_pool_inv_def new_port_manager_def range_is_empty_def default_port_range_def)
  have m: "metrics_inv new_metrics {#}" by (simp add: metrics_inv_def new_metrics_def running_def)
  have f: "\<forall>k :: nat. fair_others quiet_turn" by (simp add: fair_others_def quiet_turn_def)
  from session_returns_its_guards [OF p m _ _ f refl, of None "{#}"] show ?thesis
    by (simp add: Let_def new_metrics_def)
qed

end
