(* ===== verification/Metrics_Server.thy ===== *)
theory Metrics_Server
  imports Metrics Port_Manager Conn_Io
begin

text \<open>
  \<^verbatim>\<open>src/server/metrics_server.rs\<close>: the HTTP endpoint that serves the metrics. Proved:
  reading a request terminates and takes in a bounded number of bytes whatever the client sends; a
  complete request is answered according to its method and path only; and the announced content
  length is the number of bytes of the body.
\<close>

section \<open>Reading a request\<close>

definition MAX_REQUEST_LINE_BYTES :: nat where
  "MAX_REQUEST_LINE_BYTES = 8192"

definition MAX_HEADER_BYTES :: nat where
  "MAX_HEADER_BYTES = 8192"

datatype parsed_request = RequestOk ustr ustr | ConnectionClosed | Malformed

definition blank_line :: "ustr \<Rightarrow> bool" where
  "blank_line l \<longleftrightarrow> l = [13, 10] \<or> l = [10]"

text \<open>The header loop: whether the headers were fine.\<close>

function read_headers :: "nat \<Rightarrow> conn \<Rightarrow> bool io_result timed \<times> conn" where
  "read_headers budget c =
     (if budget = 0 then (Ready (Inr False), c)
      else let cap = min budget MAX_REQUEST_LINE_BYTES in
           case read_line cap c of
             (Elapsed, c') \<Rightarrow> (Elapsed, c')
           | (Ready (Inl e), c') \<Rightarrow> (Ready (Inl e), c')
           | (Ready (Inr (n, line)), c') \<Rightarrow>
               if n = 0 then (Ready (Inr True), c')
               else if n = cap \<and> \<not> ends_with_char line 10 then (Ready (Inr False), c')
               else if blank_line line then (Ready (Inr True), c')
               else read_headers (budget - n) c')"
  by pat_completeness auto
termination
  by (relation "measure fst") auto

declare read_headers.simps [simp del]

definition read_request :: "conn \<Rightarrow> parsed_request io_result timed \<times> conn" where
  "read_request c =
     (case read_line MAX_REQUEST_LINE_BYTES c of
        (Elapsed, c1) \<Rightarrow> (Elapsed, c1)
      | (Ready (Inl e), c1) \<Rightarrow> (Ready (Inl e), c1)
      | (Ready (Inr (n, request_line)), c1) \<Rightarrow>
          if n = 0 then (Ready (Inr ConnectionClosed), c1)
          else if n = MAX_REQUEST_LINE_BYTES \<and> \<not> ends_with_char request_line 10
          then (Ready (Inr Malformed), c1)
          else (case read_headers MAX_HEADER_BYTES c1 of
                  (Elapsed, c2) \<Rightarrow> (Elapsed, c2)
                | (Ready (Inl e), c2) \<Rightarrow> (Ready (Inl e), c2)
                | (Ready (Inr False), c2) \<Rightarrow> (Ready (Inr Malformed), c2)
                | (Ready (Inr True), c2) \<Rightarrow>
                    let parts = split_whitespace request_line;
                        verb = (case parts of [] \<Rightarrow> [] | p # _ \<Rightarrow> p);
                        path = (case parts of _ # p # _ \<Rightarrow> p | _ \<Rightarrow> [])
                    in if verb = [] then (Ready (Inr Malformed), c2)
                       else (Ready (Inr (RequestOk verb path)), c2)))"

section \<open>Answering\<close>

definition http_response :: "string \<Rightarrow> string \<Rightarrow> ustr \<Rightarrow> ustr" where
  "http_response status content_type body =
     lit ''HTTP/1.1 '' @ lit status @ [13, 10] @
     lit ''Content-Type: '' @ lit content_type @ [13, 10] @
     lit ''Content-Length: '' @ show_nat (length (utf8_encode body)) @ [13, 10] @
     lit ''Connection: close'' @ [13, 10] @ [13, 10] @ body"

text \<open>The outcome of the shutdown after the write is a parameter.\<close>

definition write_response ::
  "unit io_result \<Rightarrow> string \<Rightarrow> string \<Rightarrow> ustr \<Rightarrow> conn \<Rightarrow> unit io_result \<times> conn" where
  "write_response shut status content_type body c =
     (case write_all (utf8_encode (http_response status content_type body)) c of
        (Inl e, c') \<Rightarrow> (Inl e, c')
      | (Inr _, c') \<Rightarrow> (shut, c'))"

definition handle_request ::
  "unit io_result \<Rightarrow> instant \<Rightarrow> metrics \<Rightarrow> port_manager \<Rightarrow> rotator option \<Rightarrow> conn
    \<Rightarrow> unit io_result \<times> conn" where
  "handle_request shut now m ports rot c =
     (case read_request c of
        (Elapsed, c1) \<Rightarrow> (Inr (), c1)
      | (Ready (Inl e), c1) \<Rightarrow> (Inl e, c1)
      | (Ready (Inr ConnectionClosed), c1) \<Rightarrow> (Inr (), c1)
      | (Ready (Inr Malformed), c1) \<Rightarrow> write_response shut ''400 Bad Request'' ''text/plain'' [] c1
      | (Ready (Inr (RequestOk verb path)), c1) \<Rightarrow>
          if verb \<noteq> lit ''GET'' then write_response shut ''405 Method Not Allowed'' ''text/plain'' [] c1
          else if path \<noteq> lit ''/metrics'' then write_response shut ''404 Not Found'' ''text/plain'' [] c1
          else write_response shut ''200 OK'' ''text/plain; version=0.0.4''
                 (render (active_count ports) (unat (capacity ports))
                    (map_option (snapshot_at now) rot) m) c1)"

text \<open>
  The accept loop, on the connections that arrived so far, each with the shared state its task
  found; every connection has a task of its own, and an accept that failed is passed over.
\<close>

record metrics_visit =
  visit_stream :: conn
  visit_shutdown :: "unit io_result"
  visit_now :: instant
  visit_metrics :: metrics
  visit_ports :: port_manager
  visit_rotator :: "rotator option"

fun metrics_loop :: "metrics_visit io_result list \<Rightarrow> (unit io_result \<times> conn) list" where
  "metrics_loop [] = []"
| "metrics_loop (Inl e # accepts) = metrics_loop accepts"
| "metrics_loop (Inr v # accepts) =
     handle_request (visit_shutdown v) (visit_now v) (visit_metrics v) (visit_ports v) (visit_rotator v)
       (visit_stream v) # metrics_loop accepts"

definition run_metrics_server ::
  "(socket_addr \<Rightarrow> unit io_result) \<Rightarrow> socket_addr \<Rightarrow> metrics_visit io_result list
    \<Rightarrow> io_error + (unit io_result \<times> conn) list" where
  "run_metrics_server bind_to addr accepts = bind_res (bind_to addr) (\<lambda>_. Inr (metrics_loop accepts))"

section \<open>Bounds\<close>

lemma read_headers_reads: "read_headers budget c = (r, c') \<Longrightarrow> reads c c'"
proof (induction budget c rule: read_headers.induct)
  case (1 budget c)
  let ?cap = "min budget MAX_REQUEST_LINE_BYTES"
  obtain q d where q: "read_line ?cap c = (q, d)" by fastforce
  then have d: "reads c d" using read_line_reads [of c ?cap] by simp
  show ?case
  proof (cases "\<exists>n line. budget \<noteq> 0 \<and> q = Ready (Inr (n, line)) \<and> n \<noteq> 0 \<and>
      \<not> (n = ?cap \<and> \<not> ends_with_char line 10) \<and> \<not> blank_line line")
    case True
    then obtain n line where b: "budget \<noteq> 0" and qn: "q = Ready (Inr (n, line))" and n: "n \<noteq> 0"
      and o: "\<not> (n = ?cap \<and> \<not> ends_with_char line 10)" "\<not> blank_line line" by blast
    have "read_headers (budget - n) d = (r, c')"
      using "1.prems" q qn b n o by (subst (asm) read_headers.simps) (auto simp: Let_def)
    from "1.IH" [OF b refl q [unfolded qn, symmetric] refl refl refl n o this] d show ?thesis
      by (metis reads_trans)
  next
    case False
    then have "c' = c \<or> c' = d"
      using "1.prems" q by (subst (asm) read_headers.simps)
        (auto simp: Let_def split: if_splits timed.splits sum.splits)
    with d show ?thesis by auto
  qed
qed

lemma read_headers_bounded:
  "read_headers budget c = (Ready (Inr ok), c') \<Longrightarrow>
     \<exists>used. unread c = used @ unread c' \<and> length used \<le> budget"
proof (induction budget c arbitrary: rule: read_headers.induct)
  case (1 budget c)
  let ?cap = "min budget MAX_REQUEST_LINE_BYTES"
  show ?case
  proof (cases "budget = 0")
    case True
    with "1.prems" show ?thesis by (simp add: read_headers.simps)
  next
    case False
    then obtain n line c1 where r: "read_line ?cap c = (Ready (Inr (n, line)), c1)"
      and step: "(if n = 0 then (Ready (Inr True), c1)
               else if n = ?cap \<and> \<not> ends_with_char line 10 then (Ready (Inr False), c1)
               else if blank_line line then (Ready (Inr True), c1)
               else read_headers (budget - n) c1) = (Ready (Inr ok), c')"
      using "1.prems" by (subst (asm) read_headers.simps)
        (auto simp: Let_def split: prod.splits timed.splits sum.splits)
    let ?l = "line_of ?cap (unread c)"
    have l: "n = length ?l" "unread c = ?l @ unread c1" "n \<le> budget"
      using read_line_Ok [OF r] line_of_length [of ?cap "unread c"] by auto
    show ?thesis
    proof (cases "n = 0 \<or> (n = ?cap \<and> \<not> ends_with_char line 10) \<or> blank_line line")
      case True
      with step have "c' = c1" by (auto split: if_splits)
      with l show ?thesis by (intro exI [of _ ?l]) simp
    next
      case go: False
      then have "read_headers (budget - n) c1 = (Ready (Inr ok), c')" using step by auto
      with "1.IH" [OF False refl r [symmetric] refl refl refl] go
      obtain used where "unread c1 = used @ unread c'" "length used \<le> budget - n"
        by (auto simp: Let_def)
      with l show ?thesis by (intro exI [of _ "?l @ used"]) simp
    qed
  qed
qed

text \<open>Whatever a client of the metrics endpoint sends, a request that is read to an answer took
  in at most 8192 bytes of request line and 8192 bytes of headers, consecutive bytes of what the
  client sent.\<close>

theorem metrics_request_is_bounded:
  assumes "read_request c = (Ready (Inr request), c')"
  shows "\<exists>line headers. unread c = line @ headers @ unread c' \<and> length line \<le> 8192 \<and> length headers \<le> 8192"
proof -
  from assms obtain n line c1 where r: "read_line MAX_REQUEST_LINE_BYTES c = (Ready (Inr (n, line)), c1)"
    and rest: "c' = c1 \<or> (\<exists>ok. read_headers MAX_HEADER_BYTES c1 = (Ready (Inr ok), c'))"
    by (auto simp: read_request_def Let_def
        split: prod.splits timed.splits sum.splits if_splits bool.splits)
  let ?l = "line_of MAX_REQUEST_LINE_BYTES (unread c)"
  have l: "unread c = ?l @ unread c1" "length ?l \<le> 8192"
    using read_line_Ok(3) [OF r] line_of_length [of MAX_REQUEST_LINE_BYTES "unread c"]
    by (simp_all add: MAX_REQUEST_LINE_BYTES_def)
  from rest show ?thesis
  proof
    assume "c' = c1"
    with l show ?thesis by (intro exI [of _ ?l] exI [of _ "[]"]) simp
  next
    assume "\<exists>ok. read_headers MAX_HEADER_BYTES c1 = (Ready (Inr ok), c')"
    then obtain used where "unread c1 = used @ unread c'" "length used \<le> 8192"
      using read_headers_bounded by (fastforce simp: MAX_HEADER_BYTES_def)
    with l show ?thesis by (intro exI [of _ ?l] exI [of _ used]) simp
  qed
qed

theorem metrics_request_is_bounded_witness:
  "\<exists>line headers. [newline, newline] = line @ headers \<and> length line \<le> 8192 \<and> length headers \<le> 8192"
proof -
  let ?c = "new_conn [RxBytes [newline, newline]] []"
  have w: "split_whitespace [10] = []" by (subst split_whitespace.simps) (simp add: is_whitespace_def)
  have "read_request ?c = (Ready (Inr Malformed), new_conn [] [])"
    by (simp add: read_request_def read_line_def read_until.simps new_conn_def utf8_decode_def
        MAX_REQUEST_LINE_BYTES_def MAX_HEADER_BYTES_def read_headers.simps blank_line_def Let_def w)
  from metrics_request_is_bounded [OF this] show ?thesis by (simp add: new_conn_def unread_def)
qed

section \<open>The answers\<close>

definition answer ::
  "instant \<Rightarrow> metrics \<Rightarrow> port_manager \<Rightarrow> rotator option \<Rightarrow> ustr list \<Rightarrow> ustr" where
  "answer now m ports rot parts =
     (case parts of
        [] \<Rightarrow> http_response ''400 Bad Request'' ''text/plain'' []
      | verb # others \<Rightarrow>
          if verb \<noteq> lit ''GET'' then http_response ''405 Method Not Allowed'' ''text/plain'' []
          else if \<not> starts_with others [lit ''/metrics'']
          then http_response ''404 Not Found'' ''text/plain'' []
          else http_response ''200 OK'' ''text/plain; version=0.0.4''
                 (render (active_count ports) (unat (capacity ports))
                    (map_option (snapshot_at now) rot) m))"

lemma read_headers_complete:
  assumes "list_all (\<lambda>h. is_line h \<and> \<not> blank_line h) hs" and "is_line b" and "blank_line b"
    and "length (utf8_encode (concat hs @ b)) \<le> budget" and "budget \<le> 8192"
    and "unread c = utf8_encode (concat hs @ b) @ rest" and "all_bytes (rx c)"
  shows "\<exists>c'. read_headers budget c = (Ready (Inr True), c')"
  using assms
proof (induction hs arbitrary: budget c)
  case Nil
  have cap: "min budget MAX_REQUEST_LINE_BYTES = budget"
    using Nil.prems(5) by (simp add: MAX_REQUEST_LINE_BYTES_def)
  have u: "unread c = utf8_encode b @ rest" "length (utf8_encode b) \<le> budget" using Nil.prems by simp_all
  from read_line_is_line [OF Nil.prems(2) u(1) Nil.prems(7) u(2)] obtain c' where
    r: "read_line budget c = (Ready (Inr (length (utf8_encode b), b)), c')" by blast
  have "utf8_encode b \<noteq> []" using Nil.prems(3) by (auto simp: blank_line_def utf8_encode_def utf8_char_def)
  with u(2) have "budget \<noteq> 0" by (metis le_zero_eq length_0_conv)
  then show ?case
    using r cap Nil.prems(2,3) by (subst read_headers.simps) (auto simp: Let_def is_line_def ends_with_char_def)
next
  case (Cons h hs)
  have cap: "min budget MAX_REQUEST_LINE_BYTES = budget"
    using Cons.prems(5) by (simp add: MAX_REQUEST_LINE_BYTES_def)
  have h: "is_line h" "\<not> blank_line h" using Cons.prems(1) by simp_all
  have u: "unread c = utf8_encode h @ utf8_encode (concat hs @ b) @ rest"
    and len: "length (utf8_encode h) \<le> budget" using Cons.prems(4,6) by simp_all
  from read_line_is_line [OF h(1) u Cons.prems(7) len] obtain c1 where
    r: "read_line budget c = (Ready (Inr (length (utf8_encode h), h)), c1)"
    and c1: "unread c1 = utf8_encode (concat hs @ b) @ rest" "all_bytes (rx c1)" by blast
  have ne: "utf8_encode h \<noteq> []"
    using h(1) by (rule line_nonempty)
  with len have b: "budget \<noteq> 0" by (metis le_zero_eq length_0_conv)
  have "read_headers budget c = read_headers (budget - length (utf8_encode h)) c1"
    using r cap b ne h by (subst read_headers.simps) (auto simp: Let_def is_line_def ends_with_char_def)
  moreover have "\<exists>c'. read_headers (budget - length (utf8_encode h)) c1 = (Ready (Inr True), c')"
    by (rule Cons.IH [OF _ Cons.prems(2,3) _ _ c1]) (use Cons.prems in auto)
  ultimately show ?case by simp
qed

lemma write_response_sends:
  "wr c = [] \<Longrightarrow> fst (write_response shut st ct body c) = shut \<and>
     tx (snd (write_response shut st ct body c)) = tx c @ [(secure c, utf8_encode (http_response st ct body))]"
  by (simp add: write_response_def write_all_def)

lemma split_whitespace_nonempty: "p \<in> set (split_whitespace s) \<Longrightarrow> p \<noteq> []"
proof (induction s rule: split_whitespace.induct)
  case (1 s)
  let ?t = "dropWhile is_whitespace s"
  have ne: "?t \<noteq> []" using "1.prems" by (subst (asm) split_whitespace.simps) (auto simp: Let_def split: if_splits)
  then have "takeWhile (\<lambda>c. \<not> is_whitespace c) ?t \<noteq> []"
    by (cases ?t) (use hd_dropWhile [of is_whitespace s] in auto)
  moreover have "p = takeWhile (\<lambda>c. \<not> is_whitespace c) ?t \<or>
      p \<in> set (split_whitespace (dropWhile (\<lambda>c. \<not> is_whitespace c) ?t))"
    using "1.prems" ne by (subst (asm) split_whitespace.simps) (simp only: Let_def if_False set_simps insert_iff)
  ultimately show ?case using "1.IH" [OF refl ne] by metis
qed

text \<open>A request that was read is routed by its first two words.\<close>

lemma request_is_routed:
  assumes rr: "read_request c = (let parts = split_whitespace l in
      case parts of [] \<Rightarrow> (Ready (Inr Malformed), c2)
      | verb # others \<Rightarrow> (Ready (Inr (RequestOk verb (case others of p # _ \<Rightarrow> p | [] \<Rightarrow> []))), c2))"
  shows "\<exists>st ct body. handle_request shut now m ports rot c = write_response shut st ct body c2 \<and>
      answer now m ports rot (split_whitespace l) = http_response st ct body"
proof -
  have path: "starts_with others [p] \<longleftrightarrow> (case others of q # _ \<Rightarrow> q | [] \<Rightarrow> []) = p"
    if "p \<noteq> []" for others and p :: ustr using that by (cases others) auto
  have lne: "lit ''/metrics'' \<noteq> []" by (simp add: lit_def)
  show ?thesis
  proof (cases "split_whitespace l")
    case Nil
    then show ?thesis
      by (intro exI [of _ "''400 Bad Request''"] exI [of _ "''text/plain''"] exI [of _ "[]"])
        (simp add: handle_request_def rr answer_def)
  next
    case (Cons verb others)
    consider "verb \<noteq> lit ''GET''" | "verb = lit ''GET''" "\<not> starts_with others [lit ''/metrics'']"
      | "verb = lit ''GET''" "starts_with others [lit ''/metrics'']" by blast
    then show ?thesis
    proof cases
      case 1
      then show ?thesis using Cons
        by (intro exI [of _ "''405 Method Not Allowed''"] exI [of _ "''text/plain''"] exI [of _ "[]"])
          (simp add: handle_request_def rr answer_def)
    next
      case 2
      then show ?thesis using Cons path [OF lne, of others]
        by (intro exI [of _ "''404 Not Found''"] exI [of _ "''text/plain''"] exI [of _ "[]"])
          (simp add: handle_request_def rr answer_def)
    next
      case 3
      then show ?thesis using Cons path [OF lne, of others]
        by (intro exI [of _ "''200 OK''"] exI [of _ "''text/plain; version=0.0.4''"]
            exI [of _ "render (active_count ports) (unat (capacity ports)) (map_option (snapshot_at now) rot) m"]) (simp add: handle_request_def rr answer_def)
    qed
  qed
qed

text \<open>C40: a complete request (a request line and header lines within the size limits, ended by a
  blank line), however its bytes arrive, gets exactly one response, chosen by its first two words
  only: the rendered metrics for \<^verbatim>\<open>GET /metrics\<close>, 404 for another path, 405 for another
  method, 400 for an empty line; and its announced length is that of its body.\<close>

theorem metrics_request_is_answered:
  assumes "is_line l" and "length (utf8_encode l) \<le> 8192"
    and "list_all (\<lambda>h. is_line h \<and> \<not> blank_line h) hs" and "is_line b" and "blank_line b"
    and "length (utf8_encode (concat hs @ b)) \<le> 8192"
    and "unread c = utf8_encode (l @ concat hs @ b) @ rest" and "all_bytes (rx c)" and "wr c = []"
  shows "\<exists>c'. handle_request shut now m ports rot c = (shut, c') \<and>
    tx c' = tx c @ [(secure c, utf8_encode (answer now m ports rot (split_whitespace l)))]"
proof -
  have u: "unread c = utf8_encode l @ utf8_encode (concat hs @ b) @ rest" using assms(7) by simp
  from read_line_is_line [OF assms(1) u assms(8), of 8192] assms(2) obtain c1 where
    r: "read_line 8192 c = (Ready (Inr (length (utf8_encode l), l)), c1)"
    and c1: "unread c1 = utf8_encode (concat hs @ b) @ rest" "all_bytes (rx c1)" by auto
  from read_headers_complete [OF assms(3,4,5,6) _ c1] obtain c2 where
    h: "read_headers 8192 c1 = (Ready (Inr True), c2)" by auto
  have ne: "utf8_encode l \<noteq> []"
    using assms(1) by (rule line_nonempty)
  have "reads c c2"
    using read_line_reads [of c 8192] r read_headers_reads [OF h] by (auto intro: reads_trans)
  then have c2: "wr c2 = []" "tx c2 = tx c" "secure c2 = secure c" using assms(9) by (simp_all add: reads_def)
  have rr: "read_request c = (let parts = split_whitespace l in
      case parts of [] \<Rightarrow> (Ready (Inr Malformed), c2)
      | verb # others \<Rightarrow> (Ready (Inr (RequestOk verb (case others of p # _ \<Rightarrow> p | [] \<Rightarrow> []))), c2))"
    using r h ne assms(1) split_whitespace_nonempty [of _ l]
    by (auto simp: read_request_def MAX_REQUEST_LINE_BYTES_def MAX_HEADER_BYTES_def Let_def is_line_def
        ends_with_char_def split: list.splits)
  from request_is_routed [OF rr]
  obtain st ct body where "handle_request shut now m ports rot c = write_response shut st ct body c2"
    and "answer now m ports rot (split_whitespace l) = http_response st ct body" by blast
  with write_response_sends [OF c2(1), of shut st ct body] c2 show ?thesis
    by (intro exI [of _ "snd (write_response shut st ct body c2)"]) (simp add: prod_eq_iff)
qed

theorem metrics_request_is_answered_witness:
  "\<exists>c'. handle_request (Inr ()) 0 new_metrics (new_port_manager \<lparr>range_start = 5, range_end = 6\<rparr>) None
       (new_conn [RxBytes ''PUT'', RxBytes [newline, newline]] []) = (Inr (), c') \<and>
     tx c' = [(False, utf8_encode (http_response ''405 Method Not Allowed'' ''text/plain'' []))]"
proof -
  let ?l = "lit ''PUT'' @ [10]" and ?c = "new_conn [RxBytes ''PUT'', RxBytes [newline, newline]] []"
  have l: "is_line ?l" "is_line [10]" "blank_line [10]"
    by (simp_all add: is_line_def blank_line_def lit_def ch_def is_scalar_def)
  have u: "unread ?c = utf8_encode (?l @ concat [] @ [10]) @ []"
    by (simp add: new_conn_def unread_def lit_def ch_def utf8_encode_def utf8_char_def char_of_def bit_0)
  have w: "split_whitespace ?l = [lit ''PUT'']"
    by (subst split_whitespace.simps, subst split_whitespace.simps) (simp add: lit_def ch_def is_whitespace_def)
  have n: "length (utf8_encode ?l) \<le> 8192" "length (utf8_encode (concat [] @ [10])) \<le> 8192"
    by (simp_all add: lit_def ch_def utf8_encode_def utf8_char_def)
  have a: "all_bytes (rx ?c)" "wr ?c = []" by (simp_all add: new_conn_def)
  from metrics_request_is_answered [OF l(1) n(1) _ l(2,3) n(2) u a, of "Inr ()" 0 new_metrics
      "new_port_manager \<lparr>range_start = 5, range_end = 6\<rparr>" None]
  show ?thesis unfolding w by (simp add: answer_def new_conn_def) (simp add: lit_def ch_def)
qed

end
