(* ===== verification/Listener.thy ===== *)
theory Listener
  imports Ip_Limiter Backend_Selector Session_Guards Metrics_Server
begin

text \<open>
  \<^verbatim>\<open>src/server/listener.rs\<close>: building the components, accepting connections, and draining the
  sessions at shutdown. The accept loop and the sessions it spawns run concurrently: a history is
  a list of events in the order in which they take effect. Proved: the listener refines the
  abstract admission control of the limiter, and returns within the drain time.
\<close>

section \<open>State\<close>

record running_session =
  run_id :: u64
  run_peer :: socket_addr
  run_backend :: backend_config
  run_guard :: ip_guard

record gateway =
  gw_config :: config
  gw_ports :: port_manager
  gw_selector :: backend_selector
  gw_limiter :: ip_limiter
  gw_dns :: dns_cache
  gw_tls :: "tls_connector option"
  gw_rotator :: "rotator option"
  gw_metrics :: metrics
  gw_next_id :: u64
  gw_running :: "running_session list"
  gw_sessions :: nat

text \<open>\<open>gw_sessions\<close> is \<open>sessions.len()\<close>: a \<open>JoinSet\<close> keeps a finished task until it is joined, and the
  accept loop never joins one.\<close>

section \<open>Start-up\<close>

text \<open>\<open>NoBackends\<close> is the panic of the selector on an empty list.\<close>

datatype startup_error =
    BindFailed io_error
  | NoBackends
  | TlsSetupFailed tls_setup_error
  | SourceSetupFailed start_error

fun map_err :: "('e \<Rightarrow> 'f) \<Rightarrow> 'e + 'a \<Rightarrow> 'f + 'a" where
  "map_err f (Inl e) = Inl (f e)"
| "map_err f (Inr x) = Inr x"

definition start_gateway ::
  "rustls \<Rightarrow> (socket_addr \<Rightarrow> unit io_result) \<Rightarrow> os_interface list io_result \<Rightarrow> config
    \<Rightarrow> startup_error + gateway" where
  "start_gateway lib bind_to interfaces c =
     bind_res (map_err BindFailed
       (bind_to (SocketAddr (listen_address (cfg_listen c)) (listen_port (cfg_listen c))))) (\<lambda>_.
     bind_res (option_or NoBackends (new_selector (cfg_backends c))) (\<lambda>selector.
     bind_res
       (case tls_mode (cfg_backend_tls c) of
          TlsOff \<Rightarrow> Inr None
        | Explicit \<Rightarrow> map_err TlsSetupFailed (bind_res (new_tls_connector lib (cfg_backend_tls c)) (Inr \<circ> Some)))
       (\<lambda>tls.
     bind_res
       (case source_mode (cfg_backend_source c) of
          SourceOff \<Rightarrow> Inr None
        | Rotate \<Rightarrow> map_err SourceSetupFailed
            (bind_res (start_rotator (system_list interfaces) (cfg_backend_source c)) (Inr \<circ> Some)))
       (\<lambda>rot.
     Inr \<lparr>gw_config = c, gw_ports = new_port_manager (passive_port_range (cfg_passive c)),
          gw_selector = selector, gw_limiter = new_ip_limiter (max_connections_per_ip (cfg_limits c)),
          gw_dns = new_dns_cache, gw_tls = tls, gw_rotator = rot, gw_metrics = new_metrics,
          gw_next_id = 1, gw_running = [], gw_sessions = 0\<rparr>))))"

text \<open>The metrics endpoint is a task of its own; what becomes of it never stops the gateway.\<close>

definition metrics_task ::
  "(socket_addr \<Rightarrow> unit io_result) \<Rightarrow> metrics_visit io_result list \<Rightarrow> config
    \<Rightarrow> (io_error + (unit io_result \<times> conn) list) option" where
  "metrics_task bind_to accepts c =
     map_option (\<lambda>port. run_metrics_server bind_to (SocketAddr (metrics_address (cfg_metrics c)) port) accepts)
       (metrics_port (cfg_metrics c))"

section \<open>Accepting\<close>

definition accept_connection :: "socket_addr \<Rightarrow> gateway \<Rightarrow> gateway" where
  "accept_connection peer gw =
     (case try_acquire (gw_limiter gw) (sa_ip peer) of
        (None, l) \<Rightarrow> gw\<lparr>gw_limiter := l, gw_metrics := connection_rejected (gw_metrics gw)\<rparr>
      | (Some guard, l) \<Rightarrow>
          (let session_id = gw_next_id gw;
               (backend, selector) = select_next (gw_selector gw)
           in gw\<lparr>gw_limiter := l, gw_next_id := session_id + 1, gw_selector := selector,
                 gw_running := gw_running gw @
                   [\<lparr>run_id = session_id, run_peer = peer, run_backend = backend, run_guard = guard\<rparr>],
                 gw_sessions := Suc (gw_sessions gw)\<rparr>))"

text \<open>The end of a spawned session drops its guard.\<close>

definition session_ended :: "nat \<Rightarrow> gateway \<Rightarrow> gateway" where
  "session_ended i gw =
     (if i < length (gw_running gw)
      then gw\<lparr>gw_limiter := drop_ip_guard (run_guard (gw_running gw ! i)) (gw_limiter gw),
              gw_running := drop_nth i (gw_running gw)\<rparr>
      else gw)"

text \<open>What ends the wait of \<^verbatim>\<open>wait_for_shutdown_signal\<close> in \<^verbatim>\<open>src/shutdown.rs\<close>.\<close>

datatype shutdown_signal = SIGTERM | SIGINT

text \<open>
  \<open>Worked\<close> is what the running sessions did to the components they share with the listener.
\<close>

datatype listener_event =
    AcceptFailed io_error
  | Arrived socket_addr
  | Worked port_manager metrics dns_cache "rotator option"
  | Ended nat
  | is_ShutdownSignal: ShutdownSignal shutdown_signal

fun listener_step :: "gateway \<Rightarrow> listener_event \<Rightarrow> gateway" where
  "listener_step gw (AcceptFailed e) = gw"
| "listener_step gw (Arrived peer) = accept_connection peer gw"
| "listener_step gw (Worked pm m d r) = gw\<lparr>gw_ports := pm, gw_metrics := m, gw_dns := d, gw_rotator := r\<rparr>"
| "listener_step gw (Ended i) = session_ended i gw"
| "listener_step gw (ShutdownSignal sig) = gw"

fun accept_loop :: "gateway \<Rightarrow> listener_event list \<Rightarrow> gateway" where
  "accept_loop gw [] = gw"
| "accept_loop gw (e # es) =
     (if is_ShutdownSignal e then gw else accept_loop (listener_step gw e) es)"

section \<open>Draining\<close>

definition SHUTDOWN_DRAIN_TIMEOUT :: duration where
  "SHUTDOWN_DRAIN_TIMEOUT = from_secs 30"

text \<open>\<open>ends\<close>: how long each session still runs after the signal; the answer is how long the listener
  waits and whether all sessions had ended.\<close>

definition drain :: "nat \<Rightarrow> duration list \<Rightarrow> duration \<times> bool" where
  "drain active_sessions ends =
     (if active_sessions = 0 then (0, True)
      else let t = foldr max ends 0 in
           if t \<le> SHUTDOWN_DRAIN_TIMEOUT then (t, True) else (SHUTDOWN_DRAIN_TIMEOUT, False))"

definition run_listener ::
  "rustls \<Rightarrow> (socket_addr \<Rightarrow> unit io_result) \<Rightarrow> os_interface list io_result \<Rightarrow> listener_event list \<Rightarrow> (running_session \<Rightarrow> duration)
    \<Rightarrow> config \<Rightarrow> startup_error + (gateway \<times> duration \<times> bool)" where
  "run_listener lib bind_to interfaces es remaining c =
     bind_res (start_gateway lib bind_to interfaces c) (\<lambda>gw0.
       let gw = accept_loop gw0 es in Inr (gw, drain (gw_sessions gw) (map remaining (gw_running gw))))"

section \<open>A spawned session\<close>

definition args_of :: "gateway \<Rightarrow> running_session \<Rightarrow> session_args" where
  "args_of gw r =
     \<lparr>peer_addr = run_peer r, arg_backend = run_backend r, arg_passive = cfg_passive (gw_config gw),
      arg_timeouts = cfg_timeouts (gw_config gw), arg_limits = cfg_limits (gw_config gw), arg_tls = gw_tls gw\<rparr>"

text \<open>The session's work, and its end, on the gateway's components.\<close>

definition run_session ::
  "rustls \<Rightarrow> conn \<Rightarrow> nat \<Rightarrow> start_script \<Rightarrow> (nat \<Rightarrow> turn) \<Rightarrow> nat \<Rightarrow> gateway \<Rightarrow> gateway" where
  "run_session lib client store opn ts i gw =
     (let s = handle lib (args_of gw (gw_running gw ! i)) store opn ts
                (new_session client (gw_ports gw) (gw_metrics gw) (gw_dns gw) (gw_rotator gw))
      in accept_loop gw [Worked (s_ports s) (s_metrics s) (s_dns s) (s_rotator s), Ended i])"

text \<open>One client from its connection to the end of its session, if it is let in.\<close>

record visit =
  v_peer :: socket_addr
  v_client :: conn
  v_store :: nat
  v_start :: start_script
  v_turns :: "nat \<Rightarrow> turn"

definition serve :: "rustls \<Rightarrow> gateway \<Rightarrow> visit \<Rightarrow> gateway" where
  "serve lib gw v =
     (let gw' = accept_connection (v_peer v) gw in
      if gw_sessions gw' = gw_sessions gw then gw'
      else run_session lib (v_client v) (v_store v) (v_start v) (v_turns v) (length (gw_running gw)) gw')"

section \<open>Admission\<close>

abbreviation ip_limit :: "gateway \<Rightarrow> usize" where
  "ip_limit gw \<equiv> max_connections_per_ip (cfg_limits (gw_config gw))"

text \<open>The abstract state: how many sessions of each address are running.\<close>

definition sessions_of :: "gateway \<Rightarrow> ip_addr \<Rightarrow> nat" where
  "sessions_of gw = load_of (\<lambda>r. sa_ip (run_peer r)) (mset (gw_running gw))"

text \<open>
  The limiter counts exactly the running sessions, each session has a configured backend, and
  \<open>n\<close> events after the start the next session number is at most \<open>n + 1\<close> and larger than those in
  use, which are distinct.
\<close>

definition session_ok :: "gateway \<Rightarrow> running_session \<Rightarrow> bool" where
  "session_ok gw r \<longleftrightarrow> run_backend r \<in> set (cfg_backends (gw_config gw)) \<and>
     guard_ip (run_guard r) = sa_ip (run_peer r)"

definition listener_inv :: "gateway \<Rightarrow> bool" where
  "listener_inv gw \<longleftrightarrow>
     limiter_inv (ip_limit gw) (gw_limiter gw) (mset (map run_guard (gw_running gw))) \<and>
     selector_backends (gw_selector gw) = cfg_backends (gw_config gw) \<and> cfg_backends (gw_config gw) \<noteq> [] \<and>
     (\<forall>r \<in> set (gw_running gw). session_ok gw r)"

definition ids_inv :: "nat \<Rightarrow> gateway \<Rightarrow> bool" where
  "ids_inv n gw \<longleftrightarrow> unat (gw_next_id gw) \<le> Suc n \<and> distinct (map run_id (gw_running gw)) \<and>
     (\<forall>r \<in> set (gw_running gw). unat (run_id r) < unat (gw_next_id gw))"

lemma sessions_of_guards: "listener_inv gw \<Longrightarrow> sessions_of gw = load_of guard_ip (mset (map run_guard (gw_running gw)))"
  by (auto simp: sessions_of_def load_of_def listener_inv_def session_ok_def fun_eq_iff
      filter_mset_image_mset intro!: arg_cong [of _ _ size] filter_mset_cong)

lemma set_drop_nth: "set (drop_nth i xs) \<subseteq> set xs"
  using set_take_subset [of i xs] set_drop_subset [of "Suc i" xs] by auto

lemma mset_split: "i < length xs \<Longrightarrow> mset xs = add_mset (xs ! i) (mset (drop_nth i xs))"
  by (simp add: mset_drop_nth del: drop_nth.simps)

lemma map_drop_nth: "map f (drop_nth i xs) = drop_nth i (map f xs)"
  by (simp add: take_map drop_map)

lemma distinct_drop_nth: "distinct xs \<Longrightarrow> distinct (drop_nth i xs)"
  using set_take_disj_set_drop_if_distinct [of xs i "Suc i"] by simp

lemma accept_connection_cases:
  assumes "listener_inv gw"
  obtains (refused) l where "try_acquire (gw_limiter gw) (sa_ip peer) = (None, l)"
      "accept_connection peer gw = gw\<lparr>gw_limiter := l, gw_metrics := connection_rejected (gw_metrics gw)\<rparr>"
  | (granted) g l r sel where "try_acquire (gw_limiter gw) (sa_ip peer) = (Some g, l)"
      "accept_connection peer gw = gw\<lparr>gw_limiter := l, gw_next_id := gw_next_id gw + 1, gw_selector := sel,
         gw_running := gw_running gw @ [r], gw_sessions := Suc (gw_sessions gw)\<rparr>"
      "run_id r = gw_next_id gw" "run_peer r = peer" "run_guard r = g" "run_backend r \<in> set (cfg_backends (gw_config gw))"
      "selector_backends sel = selector_backends (gw_selector gw)"
proof -
  obtain x l where x: "try_acquire (gw_limiter gw) (sa_ip peer) = (x, l)" by fastforce
  show thesis
  proof (cases x)
    case None
    with x show thesis by (intro refused) (auto simp: accept_connection_def)
  next
    case (Some g)
    obtain b sel where b: "select_next (gw_selector gw) = (b, sel)" by fastforce
    have "b \<in> set (cfg_backends (gw_config gw))"
      using select_next_mem [of "gw_selector gw"] assms b by (simp add: listener_inv_def)
    moreover have "selector_backends sel = selector_backends (gw_selector gw)"
      using select_next_frame [of "gw_selector gw"] b by simp
    ultimately show thesis
      using Some x b granted [where sel = sel and g = g and l = l
          and r = "\<lparr>run_id = gw_next_id gw, run_peer = peer, run_backend = b, run_guard = g\<rparr>"]
      by (auto simp: accept_connection_def Let_def)
  qed
qed

lemma granted_guard: "try_acquire l ip = (Some g, l') \<Longrightarrow> guard_ip g = ip"
  by (auto simp: try_acquire_def Let_def split: if_splits)

lemma listener_inv_accept: "listener_inv gw \<Longrightarrow> listener_inv (accept_connection peer gw)"
proof -
  assume i: "listener_inv gw"
  then show ?thesis
  proof (cases rule: accept_connection_cases [of gw peer])
    case (refused l)
    with i show ?thesis
      by (auto simp: listener_inv_def session_ok_def dest: ip_pool.acquire_none)
  next
    case (granted g l r sel)
    have "limiter_inv (ip_limit gw) l (add_mset g (mset (map run_guard (gw_running gw))))"
      using i by (intro ip_pool.acquire_some [OF _ granted(1)]) (simp add: listener_inv_def)
    with i granted granted_guard [OF granted(1)] show ?thesis by (simp add: listener_inv_def session_ok_def)
  qed
qed

lemma listener_inv_ended: "listener_inv gw \<Longrightarrow> listener_inv (session_ended i gw)"
proof (cases "i < length (gw_running gw)")
  case True
  assume i: "listener_inv gw"
  have "mset (map run_guard (gw_running gw)) =
      add_mset (run_guard (gw_running gw ! i)) (mset (map run_guard (drop_nth i (gw_running gw))))"
    using mset_split [of i "map run_guard (gw_running gw)"] True by (simp add: map_drop_nth del: drop_nth.simps)
  then have "limiter_inv (ip_limit gw) (drop_ip_guard (run_guard (gw_running gw ! i)) (gw_limiter gw))
      (mset (map run_guard (drop_nth i (gw_running gw))))"
    using i ip_pool.release by (metis listener_inv_def)
  with i True set_drop_nth [of i "gw_running gw"] show ?thesis
    by (auto simp: session_ended_def listener_inv_def session_ok_def simp del: drop_nth.simps)
qed (simp add: session_ended_def)

lemma listener_step_inv: "listener_inv gw \<Longrightarrow> listener_inv (listener_step gw e)"
  by (cases e) (simp_all add: listener_inv_accept listener_inv_ended, simp add: listener_inv_def session_ok_def)

lemma listener_step_config [simp]: "gw_config (listener_step gw e) = gw_config gw"
  by (cases e) (auto simp: accept_connection_def session_ended_def Let_def split: option.splits prod.splits)

lemma accept_loop_inv: "listener_inv gw \<Longrightarrow> listener_inv (accept_loop gw es) \<and> gw_config (accept_loop gw es) = gw_config gw"
  by (induction gw es rule: accept_loop.induct) (auto simp: listener_step_inv)

lemma start_gateway_inv:
  "start_gateway lib bind_to interfaces c = Inr gw \<Longrightarrow>
     listener_inv gw \<and> gw_config gw = c \<and> gw_running gw = [] \<and> gw_next_id gw = 1 \<and> gw_metrics gw = new_metrics \<and> gw_sessions gw = 0 \<and>
     gw_ports gw = new_port_manager (passive_port_range (cfg_passive c)) \<and>
     (\<forall>r. gw_rotator gw = Some r \<longrightarrow> (\<exists>sources. r = new_rotator sources))"
  by (auto simp: start_gateway_def bind_res_def option_or_def new_selector_def start_rotator_def listener_inv_def
      limiter_inv_def new_ip_limiter_def split: sum.splits option.splits if_splits backend_tls_mode.splits
      backend_source_mode.splits)

text \<open>Session numbers are fresh until the counter wraps.\<close>

lemma ids_inv_mono: "ids_inv n gw \<Longrightarrow> n \<le> m \<Longrightarrow> ids_inv m gw"
  by (simp add: ids_inv_def)

lemma ids_inv_accept:
  assumes "listener_inv gw" and "ids_inv n gw" and "Suc n < 2 ^ 64 - 1"
  shows "ids_inv (Suc n) (accept_connection peer gw)"
  using assms(1)
proof (cases rule: accept_connection_cases [of gw peer])
  case (refused l)
  with assms(2) show ?thesis by (auto simp: ids_inv_def)
next
  case (granted g l r sel)
  have "unat (gw_next_id gw + 1) = Suc (unat (gw_next_id gw))"
    using assms(2,3) unat_add_lem [of "gw_next_id gw" 1] by (simp add: ids_inv_def)
  with assms(2) granted show ?thesis by (auto simp: ids_inv_def less_Suc_eq)
qed

lemma ids_inv_ended: "ids_inv n gw \<Longrightarrow> ids_inv n (session_ended i gw)"
  using set_drop_nth [of i "gw_running gw"] distinct_drop_nth [of "map run_id (gw_running gw)" i]
  by (auto simp: ids_inv_def session_ended_def map_drop_nth simp del: drop_nth.simps)

lemma ids_inv_step:
  "listener_inv gw \<Longrightarrow> ids_inv n gw \<Longrightarrow> Suc n < 2 ^ 64 - 1 \<Longrightarrow> ids_inv (Suc n) (listener_step gw e)"
  using ids_inv_mono [of n gw "Suc n"]
  by (cases e) (auto simp: ids_inv_accept ids_inv_ended, simp add: ids_inv_def)

lemma accept_loop_ids:
  "listener_inv gw \<Longrightarrow> ids_inv n gw \<Longrightarrow> n + length es < 2 ^ 64 - 1 \<Longrightarrow> ids_inv (n + length es) (accept_loop gw es)"
proof (induction gw es arbitrary: n rule: accept_loop.induct)
  case (2 gw e es)
  show ?case
  proof (cases "is_ShutdownSignal e")
    case True
    with 2 show ?thesis by (simp add: ids_inv_mono [of n])
  next
    case False
    with 2 show ?thesis using "2.IH" [of "Suc n"] by (simp add: listener_step_inv ids_inv_step)
  qed
qed simp

text \<open>The two operations on the table of sessions refine the abstract ones.\<close>

lemma accept_admits:
  assumes "listener_inv gw" and "ip_limit gw \<noteq> 0"
  shows "sessions_of (accept_connection peer gw) = admit (unat (ip_limit gw)) (sa_ip peer) (sessions_of gw)"
proof -
  let ?gs = "mset (map run_guard (gw_running gw))"
  have l: "ip_limit gw \<noteq> 0 \<and> limiter_inv (ip_limit gw) (gw_limiter gw) ?gs"
    using assms by (simp add: listener_inv_def)
  note after = sessions_of_guards [OF listener_inv_accept [OF assms(1)], of peer]
  show ?thesis
    using assms(1)
  proof (cases rule: accept_connection_cases [of gw peer])
    case (refused x)
    then show ?thesis
      using after sessions_of_guards [OF assms(1)] ip_admission.refused_admits [OF l refused(1)] by simp
  next
    case (granted g x r sel)
    then show ?thesis
      using after sessions_of_guards [OF assms(1)] ip_admission.granted_admits [OF l granted(1)] by simp
  qed
qed

lemma ended_leaves:
  "i < length (gw_running gw) \<Longrightarrow>
     sessions_of (session_ended i gw) = leave (sa_ip (run_peer (gw_running gw ! i))) (sessions_of gw)"
  using load_of_remove [of "\<lambda>r. sa_ip (run_peer r)" "mset (drop_nth i (gw_running gw))" "gw_running gw ! i"]
    mset_split [of i "gw_running gw"]
  by (simp add: sessions_of_def session_ended_def del: drop_nth.simps)

text \<open>C8: the listener implements an admission control that knows only how many sessions each
  address has. After a successful start with a limit and any history of connections, failed
  accepts and session ends: no address has more sessions than the limit; a connection adds one
  session for its address if that has fewer than the limit and changes nothing otherwise; the end
  of a session gives back exactly its own place; every session runs against a configured backend;
  and session numbers are distinct until the 64-bit counter wraps.\<close>

theorem listener_refines_admission:
  assumes "start_gateway lib bind_to interfaces c = Inr gw0"
    and "max_connections_per_ip (cfg_limits c) = limit" and "limit \<noteq> 0"
    and "gw = accept_loop gw0 es"
  shows "sessions_of gw ip \<le> unat limit
    \<and> sessions_of (accept_connection peer gw) = admit (unat limit) (sa_ip peer) (sessions_of gw)
    \<and> (i < length (gw_running gw) \<longrightarrow>
        sessions_of (session_ended i gw) = leave (sa_ip (run_peer (gw_running gw ! i))) (sessions_of gw))
    \<and> run_backend ` set (gw_running gw) \<subseteq> set (cfg_backends c)
    \<and> (length es < 2 ^ 64 - 1 \<longrightarrow> distinct (map run_id (gw_running gw)))"
proof -
  from start_gateway_inv [OF assms(1)]
  have g0: "listener_inv gw0" "gw_config gw0 = c" "ids_inv 0 gw0" by (simp_all add: ids_inv_def)
  with accept_loop_inv [of gw0 es] have g: "listener_inv gw" "ip_limit gw = limit" "gw_config gw = c"
    by (simp_all add: assms(2,4))
  have "limit \<noteq> 0 \<and> limiter_inv limit (gw_limiter gw) (mset (map run_guard (gw_running gw)))"
    using g assms(3) by (simp add: listener_inv_def)
  then have "sessions_of gw ip \<le> unat limit"
    unfolding sessions_of_guards [OF g(1)] by (rule ip_admission.below_limit)
  moreover have "run_backend ` set (gw_running gw) \<subseteq> set (cfg_backends c)"
    using g by (auto simp: listener_inv_def session_ok_def)
  moreover have "distinct (map run_id (gw_running gw))" if "length es < 2 ^ 64 - 1"
    using accept_loop_ids [OF g0(1,3), of es] that by (simp add: ids_inv_def assms(4))
  ultimately show ?thesis
    using accept_admits [OF g(1)] g(2) assms(3) ended_leaves [of i gw] by simp
qed

definition admission_config :: config where
  "admission_config = default_config\<lparr>cfg_backends := [default_backend_config],
     cfg_limits := default_limits\<lparr>max_command_line_bytes := 64, max_connections_per_ip := 1\<rparr>\<rparr>"

lemma admission_starts:
  "start_gateway lib (\<lambda>_. Inr ()) interfaces admission_config =
     Inr \<lparr>gw_config = admission_config, gw_ports = new_port_manager default_port_range,
       gw_selector = \<lparr>selector_backends = [default_backend_config], selector_next = 0\<rparr>,
       gw_limiter = new_ip_limiter 1, gw_dns = new_dns_cache, gw_tls = None, gw_rotator = None,
       gw_metrics = new_metrics, gw_next_id = 1, gw_running = [], gw_sessions = 0\<rparr>"
  by (simp add: start_gateway_def admission_config_def default_config_def new_selector_def option_or_def
      default_backend_tls_def default_backend_source_def default_passive_def default_limits_def)

text \<open>Two clients of one address, the second refused, the first done, a third accepted.\<close>

theorem listener_refines_admission_witness:
  "let p = SocketAddr (V4 LOCALHOST);
       gw = (case start_gateway accepting_tls (\<lambda>_. Inr ()) (Inr []) admission_config of Inr gw \<Rightarrow> gw);
       es = [Arrived (p 5000), Arrived (p 5001), Ended 0, Arrived (p 5002)] in
   map run_id (gw_running (accept_loop gw es)) = [2] \<and> sessions_of (accept_loop gw es) (V4 LOCALHOST) \<le> 1"
proof -
  let ?p = "SocketAddr (V4 LOCALHOST)"
  let ?es = "[Arrived (?p 5000), Arrived (?p 5001), Ended 0, Arrived (?p 5002)]"
  obtain gw0 where g: "start_gateway accepting_tls (\<lambda>_. Inr ()) (Inr []) admission_config = Inr gw0"
    and gw0: "gw_limiter gw0 = new_ip_limiter 1" "gw_next_id gw0 = 1" "gw_running gw0 = []"
    using admission_starts by simp
  have l: "max_connections_per_ip (cfg_limits admission_config) = 1"
    by (simp add: admission_config_def)
  have "map run_id (gw_running (accept_loop gw0 ?es)) = [2]"
    by (simp add: gw0 accept_connection_def try_acquire_def new_ip_limiter_def session_ended_def
        drop_ip_guard_def select_next_def Let_def)
  moreover have "sessions_of (accept_loop gw0 ?es) (V4 LOCALHOST) \<le> 1"
    using listener_refines_admission [OF g l _ refl, of ?es "V4 LOCALHOST"] by simp
  ultimately show ?thesis unfolding g by (simp add: Let_def)
qed

section \<open>Draining is bounded\<close>

lemma foldr_max: "foldr max ends (0 :: duration) \<le> t \<longleftrightarrow> (\<forall>d \<in> set ends. d \<le> t)"
  by (induction ends) auto

text \<open>A task that runs is in the set of tasks.\<close>

lemma sessions_step:
  "length (gw_running gw) \<le> gw_sessions gw \<Longrightarrow>
     length (gw_running (listener_step gw e)) \<le> gw_sessions (listener_step gw e) \<and>
     gw_sessions gw \<le> gw_sessions (listener_step gw e)"
  by (cases e) (auto simp: accept_connection_def session_ended_def Let_def split: option.splits prod.splits)

lemma sessions_loop:
  "length (gw_running gw) \<le> gw_sessions gw \<Longrightarrow>
     length (gw_running (accept_loop gw es)) \<le> gw_sessions (accept_loop gw es) \<and>
     gw_sessions gw \<le> gw_sessions (accept_loop gw es)"
  by (induction gw es rule: accept_loop.induct) (use sessions_step order_trans in \<open>auto, blast+\<close>)

text \<open>The wait ends with the last session or with the timer.\<close>

lemma run_listener_bounded:
  assumes "run_listener lib bind_to interfaces es remaining c = Inr (gw, waited, clean)"
  shows "waited \<le> 30 * 1000000000
    \<and> (clean \<longleftrightarrow> (\<forall>r \<in> set (gw_running gw). remaining r \<le> 30 * 1000000000))
    \<and> (clean \<longrightarrow> (\<forall>r \<in> set (gw_running gw). remaining r \<le> waited))"
proof -
  from assms obtain gw0 where g: "start_gateway lib bind_to interfaces c = Inr gw0" "gw = accept_loop gw0 es"
    and d: "drain (gw_sessions gw) (map remaining (gw_running gw)) = (waited, clean)"
    by (auto simp: run_listener_def bind_res_eq_Inr Let_def)
  have "length (gw_running gw) \<le> gw_sessions gw"
    using sessions_loop [of gw0 es] start_gateway_inv [OF g(1)] g(2) by simp
  moreover have "SHUTDOWN_DRAIN_TIMEOUT = 30 * 1000000000" by (simp add: SHUTDOWN_DRAIN_TIMEOUT_def from_secs_def)
  ultimately show ?thesis
    using d foldr_max [of "map remaining (gw_running gw)"]
    by (auto simp: drain_def Let_def split: if_splits)
qed

end
