(* ===== verification/Session_Steps.thy ===== *)
theory Session_Steps
  imports Session_Guards
begin

text \<open>
  The session of \<^verbatim>\<open>src/server/session.rs\<close> once more, cut at the points where it waits long enough for
  other sessions to run: for the backend, for a command line, for the client's data connection, for
  a data slot, for the data connection to the backend, for the first reply, for the relay and for
  the completion reply. \<open>Session\<close> has the same code as one function; it is proved here that the
  steps, run without interruption, compute that function, and that every step keeps the account of
  the guards.
\<close>

section \<open>Phases\<close>

text \<open>
  What the session waits for, with the values that are alive then: the command line, the port whose
  guard was taken for the transfer, the client's data connection, the slot and the channel.
\<close>

datatype phase =
    Spawned
  | Connecting
  | Greeting
  | is_Waiting: Waiting
  | Accepting ustr u16
  | Claiming ustr u16 data_stream
  | Opening ustr u16 data_stream "(ustr \<times> ipv4_addr) option"
  | Starting ustr u16 data_channel
  | Relaying u16 data_channel "(bool \<times> data_stream) io_result"
  | Completing u16 data_channel
  | is_Over: Over

text \<open>The end of a turn, and of one that holds the port of a transfer.\<close>

fun turn_over :: "(flow + unit) \<times> session \<Rightarrow> phase \<times> session" where
  "turn_over (Inl Continue, s) = (Waiting, s)"
| "turn_over (_, s) = (Over, end_session s)"

definition stor_over :: "u16 \<Rightarrow> (flow + unit) \<times> session \<Rightarrow> phase \<times> session" where
  "stor_over port = (\<lambda>(r, s). turn_over (r, on_ports (drop_port_guard port) s))"

definition no_channel :: "u16 \<Rightarrow> session \<Rightarrow> phase \<times> session" where
  "no_channel port s =
     stor_over port
       (bind_task (client_write (reply_line ''425 Can't open data connection'')) (\<lambda>_. stop Continue) s)"

text \<open>A \<^verbatim>\<open>STOR\<close> line that finds an announced port.\<close>

definition stor_line :: "session_args \<Rightarrow> session \<Rightarrow> (ustr \<times> u16 \<times> conn) option" where
  "stor_line args s =
     (case read_line_bounded (max_command_line_bytes (arg_limits args)) (client_conn s) of
        (Ready (Inr (n, line)), c) \<Rightarrow>
          let trimmed_line = trim_end_matches (\<lambda>c. c = 13 \<or> c = 10) line in
          if n = 0 \<or> has_embedded_line_break trimmed_line then None
          else (case (parse_command trimmed_line, active_pasv s) of
                  (Stor _, Some port) \<Rightarrow> Some (line, port, c)
                | _ \<Rightarrow> None)
      | _ \<Rightarrow> None)"

definition claim_key :: "session_args \<Rightarrow> ustr \<times> usize" where
  "claim_key args = (backend_key args, range_len (passive_ports (arg_backend args)))"

definition accept_data :: "session_args \<Rightarrow> turn \<Rightarrow> ustr \<Rightarrow> u16 \<Rightarrow> session \<Rightarrow> phase \<times> session" where
  "accept_data args t line port s =
     (case accept_client_data
             (if require_data_ip_match (arg_limits args) then Some (sa_ip (peer_addr args)) else None)
             (t_accepts t) (s_metrics s) of
        (Ready (Inr (stream, _)), m) \<Rightarrow>
          (case (s_rotator s, source_ip s) of
             (Some r, Some src) \<Rightarrow>
               (Claiming line port stream,
                s\<lparr>s_metrics := m, s_rotator := Some (slot_enter (fst (claim_key args)) (snd (claim_key args)) src r)\<rparr>)
           | _ \<Rightarrow> (Opening line port stream None, s\<lparr>s_metrics := m\<rparr>))
      | (_, m) \<Rightarrow> no_channel port (s\<lparr>s_metrics := m\<rparr>))"

text \<open>The wait for a slot is over: a permit is free, or the timer has fired.\<close>

definition claim_data :: "session_args \<Rightarrow> ustr \<Rightarrow> u16 \<Rightarrow> data_stream \<Rightarrow> session \<Rightarrow> phase \<times> session" where
  "claim_data args line port stream s =
     (case (s_rotator s, source_ip s) of
        (Some r, Some src) \<Rightarrow>
          (case slot_grant (fst (claim_key args)) (snd (claim_key args)) src r of
             (Some slot, r') \<Rightarrow> (Opening line port stream (Some slot), s\<lparr>s_rotator := Some r'\<rparr>)
           | (None, r') \<Rightarrow> no_channel port (s\<lparr>s_rotator := Some (slot_elapsed (fst (claim_key args)) src r')\<rparr>))
      | _ \<Rightarrow> no_channel port s)"

definition connect_data ::
  "session_args \<Rightarrow> turn \<Rightarrow> ustr \<Rightarrow> u16 \<Rightarrow> data_stream \<Rightarrow> (ustr \<times> ipv4_addr) option \<Rightarrow> session \<Rightarrow> phase \<times> session" where
  "connect_data args t line port stream slot s =
     (case open_data args t s of
        (Inl f, s') \<Rightarrow> stor_over port (Inl f, release_slot slot s')
      | (Inr (Inr data), s') \<Rightarrow>
          (Starting line port \<lparr>client_data = stream, backend_data = data, data_slot = slot\<rparr>, s')
      | (Inr (Inl err), s') \<Rightarrow>
          (case scoped (data_connect_failed t err) (release_slot slot) s' of
             (Inl f, s'') \<Rightarrow> stor_over port (Inl f, s'')
           | (Inr control_lost, s'') \<Rightarrow>
               if control_lost
               then stor_over port (Inl Break, tell_client (reply_line ''421 Service not available'') s'')
               else no_channel port s''))"

definition begin_transfer ::
  "rustls \<Rightarrow> session_args \<Rightarrow> turn \<Rightarrow> ustr \<Rightarrow> u16 \<Rightarrow> data_channel \<Rightarrow> session \<Rightarrow> phase \<times> session" where
  "begin_transfer lib args t line port chan s =
     (case on_stop (start_transfer args line) (on_metrics (drop_upload_attempt False))
             (on_metrics upload_attempted s) of
        (Inl f, s') \<Rightarrow> stor_over port (Inl f, release_slot (data_slot chan) s')
      | (Inr _, s') \<Rightarrow>
          let r = secure_data lib args t (backend_data chan)
          in (Relaying port chan r, on_metrics upload_started (observe_data_error r s')))"

definition complete_transfer :: "session_args \<Rightarrow> u16 \<Rightarrow> data_channel \<Rightarrow> session \<Rightarrow> phase \<times> session" where
  "complete_transfer args port chan s =
     stor_over port
       (scoped
          (scoped
             (bind_task
                (on_stop (backend_reply args ''426 Connection closed; transfer aborted'' Break)
                  (on_metrics (drop_upload_attempt False)))
                finish_upload)
             (on_metrics drop_upload_guard))
          (release_slot (data_slot chan)) s)"

fun advance ::
  "rustls \<Rightarrow> session_args \<Rightarrow> start_script \<Rightarrow> turn \<Rightarrow> phase \<Rightarrow> session \<Rightarrow> phase \<times> session" where
  "advance lib args opn t Spawned s = (Connecting, on_metrics session_started s)"
| "advance lib args opn t Connecting s =
     (case connect_backend args opn s of
        (False, s') \<Rightarrow> (Over, end_session (tell_client (reply_line ''421 Service not available'') s'))
      | (True, s') \<Rightarrow> (Greeting, s'))"
| "advance lib args opn t Greeting s =
     (case greet lib args s of
        (Inl _, s') \<Rightarrow> (Over, end_session s')
      | (Inr _, s') \<Rightarrow> (Waiting, s'))"
| "advance lib args opn t Waiting s =
     (case stor_line args s of
        Some (line, port, c) \<Rightarrow> (Accepting line port, s\<lparr>client_conn := c, active_pasv := None\<rparr>)
      | None \<Rightarrow> turn_over (session_turn lib args t s))"
| "advance lib args opn t (Accepting line port) s = accept_data args t line port s"
| "advance lib args opn t (Claiming line port stream) s = claim_data args line port stream s"
| "advance lib args opn t (Opening line port stream slot) s = connect_data args t line port stream slot s"
| "advance lib args opn t (Starting line port chan) s = begin_transfer lib args t line port chan s"
| "advance lib args opn t (Relaying port chan r) s =
     (Completing port chan, run_relay args t (client_data chan) r s)"
| "advance lib args opn t (Completing port chan) s = complete_transfer args port chan s"
| "advance lib args opn t Over s = (Over, s)"

section \<open>The steps compute the session\<close>

text \<open>A session that runs alone; \<open>k\<close> counts the turns of its loop, whose script is \<open>ts k\<close>.\<close>

definition alone ::
  "rustls \<Rightarrow> session_args \<Rightarrow> start_script \<Rightarrow> (nat \<Rightarrow> turn) \<Rightarrow> nat \<times> phase \<times> session \<Rightarrow> nat \<times> phase \<times> session" where
  "alone lib args opn ts = (\<lambda>(k, ph, s).
     case advance lib args opn (ts k) ph s of
       (ph', s') \<Rightarrow> (if is_Waiting ph' \<and> ph \<noteq> Greeting then Suc k else k, ph', s'))"

definition leads :: "('a \<Rightarrow> 'a) \<Rightarrow> 'a \<Rightarrow> 'a \<Rightarrow> bool" where
  "leads f x y \<longleftrightarrow> (\<exists>n. (f ^^ n) x = y)"

lemma leads_refl: "leads f x x"
  unfolding leads_def by (rule exI [of _ 0]) simp

lemma leads_step: "leads f (f x) y \<Longrightarrow> leads f x y"
  unfolding leads_def by (metis funpow_swap1 funpow.simps(2) o_apply)

lemma leads_trans: "leads f x y \<Longrightarrow> leads f y z \<Longrightarrow> leads f x z"
  unfolding leads_def by (metis funpow_add o_apply)

text \<open>Where the loop stands after a turn.\<close>

definition after :: "nat \<Rightarrow> phase \<times> session \<Rightarrow> nat \<times> phase \<times> session" where
  "after k = (\<lambda>(ph, s). (if is_Waiting ph then Suc k else k, ph, s))"

lemma alone_after:
  "ph \<noteq> Greeting \<Longrightarrow> advance lib args opn (ts k) ph s = p \<Longrightarrow> alone lib args opn ts (k, ph, s) = after k p"
  by (auto simp: alone_def after_def split: prod.splits)

lemma alone_on:
  "ph \<noteq> Greeting \<Longrightarrow> advance lib args opn (ts k) ph s = (ph', s') \<Longrightarrow> \<not> is_Waiting ph' \<Longrightarrow>
     leads (alone lib args opn ts) (k, ph', s') y \<Longrightarrow> leads (alone lib args opn ts) (k, ph, s) y"
  by (rule leads_step) (simp add: alone_after after_def)

lemma alone_last:
  "ph \<noteq> Greeting \<Longrightarrow> advance lib args opn (ts k) ph s = p \<Longrightarrow> leads (alone lib args opn ts) (k, ph, s) (after k p)"
  by (rule leads_step) (simp add: alone_after leads_refl)

lemma stor_over_scoped: "stor_over port (f s) = turn_over (scoped f (on_ports (drop_port_guard port)) s)"
  by (simp add: stor_over_def scoped_def split: prod.splits)

lemma leads_completing:
  "leads (alone lib args opn ts) (k, Completing port chan, s) (after k (complete_transfer args port chan s))"
  by (rule alone_last) simp_all

lemma leads_relaying:
  "leads (alone lib args opn ts) (k, Relaying port chan r, s)
     (after k (complete_transfer args port chan (run_relay args (ts k) (client_data chan) r s)))"
  by (rule alone_on [OF _ _ _ leads_completing]) simp_all

lemma on_stop_transfer:
  "on_stop (transfer args t c r) d s =
     on_stop (backend_reply args ''426 Connection closed; transfer aborted'' Break) d (run_relay args t c r s)"
  by (simp add: transfer_def on_stop_def bind_task_def modify_def)

lemma leads_starting:
  "leads (alone lib args opn ts) (k, Starting line port chan, s)
     (after k (stor_over port (scoped (run_upload lib args (ts k) line chan) (release_slot (data_slot chan)) s)))"
proof -
  let ?t = "ts k" and ?failed = "on_metrics (drop_upload_attempt False)"
  let ?r = "secure_data lib args ?t (backend_data chan)"
  obtain x s1 where st: "on_stop (start_transfer args line) ?failed (on_metrics upload_attempted s) = (x, s1)"
    by fastforce
  show ?thesis
  proof (cases x)
    case (Inl f)
    then have "run_upload lib args ?t line chan s = (Inl f, s1)"
      using st by (simp add: run_upload_def Let_def bind_task_def modify_def)
    then have "advance lib args opn ?t (Starting line port chan) s =
        stor_over port (scoped (run_upload lib args ?t line chan) (release_slot (data_slot chan)) s)"
      using st Inl by (simp add: begin_transfer_def scoped_def)
    then show ?thesis by (rule alone_last [rotated]) simp
  next
    case (Inr u)
    let ?s2 = "on_metrics upload_started (observe_data_error ?r s1)"
    have "run_upload lib args ?t line chan s =
        scoped (bind_task (on_stop (transfer args ?t (client_data chan) ?r) ?failed) finish_upload)
          (on_metrics drop_upload_guard) ?s2"
      using st Inr by (simp add: run_upload_def Let_def bind_task_def modify_def)
    then have "stor_over port (scoped (run_upload lib args ?t line chan) (release_slot (data_slot chan)) s) =
        complete_transfer args port chan (run_relay args ?t (client_data chan) ?r ?s2)"
      by (simp add: complete_transfer_def scoped_def bind_task_def on_stop_transfer)
    moreover have "advance lib args opn ?t (Starting line port chan) s = (Relaying port chan ?r, ?s2)"
      using st Inr by (simp add: begin_transfer_def Let_def)
    ultimately show ?thesis using alone_on [OF _ _ _ leads_relaying, of "Starting line port chan"] by simp
  qed
qed

text \<open>The pieces of the code that opens the channel and that runs once it is open.\<close>

definition opened ::
  "session_args \<Rightarrow> turn \<Rightarrow> data_stream \<Rightarrow> (ustr \<times> ipv4_addr) option \<Rightarrow> (data_channel option \<times> bool) task" where
  "opened args t stream slot =
     bind_task (open_data args t) (\<lambda>r.
       case r of
         Inr data \<Rightarrow> give (Some \<lparr>client_data = stream, backend_data = data, data_slot = slot\<rparr>, False)
       | Inl err \<Rightarrow> scoped (bind_task (data_connect_failed t err) (\<lambda>lost. give (None, lost))) (release_slot slot))"

definition stor_rest ::
  "rustls \<Rightarrow> session_args \<Rightarrow> turn \<Rightarrow> ustr \<Rightarrow> data_channel option \<times> bool \<Rightarrow> unit task" where
  "stor_rest lib args t line = (\<lambda>(channel, control_lost).
     if control_lost
     then bind_task (modify (tell_client (reply_line ''421 Service not available''))) (\<lambda>_. stop Break)
     else (case channel of
             Some chan \<Rightarrow> scoped (run_upload lib args t line chan) (release_slot (data_slot chan))
           | None \<Rightarrow>
               bind_task (client_write (reply_line ''425 Can't open data connection''))
                 (\<lambda>_. stop Continue)))"

lemma handle_stor_pieces:
  "handle_stor lib args t line port s =
     scoped (bind_task (open_channel args t) (stor_rest lib args t line)) (on_ports (drop_port_guard port))
       (s\<lparr>active_pasv := None\<rparr>)"
  by (simp add: handle_stor_def stor_rest_def scoped_def bind_task_def modify_def)

lemma open_channel_pieces:
  "open_channel args t s =
     (case accept_client_data
             (if require_data_ip_match (arg_limits args) then Some (sa_ip (peer_addr args)) else None)
             (t_accepts t) (s_metrics s) of
        (Ready (Inr (stream, _)), m) \<Rightarrow>
          bind_task (claim_slot args t) (\<lambda>slot. case slot of None \<Rightarrow> give (None, False) | Some slot \<Rightarrow> opened args t stream slot)
            (s\<lparr>s_metrics := m\<rparr>)
      | (_, m) \<Rightarrow> (Inr (None, False), s\<lparr>s_metrics := m\<rparr>))"
  unfolding open_channel_def opened_def ..

lemma no_channel_rest: "no_channel port s = stor_over port (stor_rest lib args t line (None, False) s)"
  by (simp add: no_channel_def stor_rest_def)

lemma leads_opening:
  "leads (alone lib args opn ts) (k, Opening line port stream slot, s)
     (after k (stor_over port (bind_task (opened args (ts k) stream slot) (stor_rest lib args (ts k) line) s)))"
proof -
  let ?t = "ts k"
  obtain x s1 where o: "open_data args ?t s = (Inr x, s1)"
    by (cases "open_data args ?t s") (auto simp: open_data_def split: prod.splits)
  show ?thesis
  proof (cases x)
    case (Inr data)
    let ?chan = "\<lparr>client_data = stream, backend_data = data, data_slot = slot\<rparr>"
    have "bind_task (opened args ?t stream slot) (stor_rest lib args ?t line) s =
        scoped (run_upload lib args ?t line ?chan) (release_slot (data_slot ?chan)) s1"
      using o Inr by (simp add: opened_def stor_rest_def bind_task_def give_def)
    moreover have adv: "advance lib args opn ?t (Opening line port stream slot) s = (Starting line port ?chan, s1)"
      using o Inr by (simp add: connect_data_def)
    ultimately show ?thesis using alone_on [where ts = ts and k = k, OF _ adv _ leads_starting] by simp
  next
    case (Inl err)
    have "advance lib args opn ?t (Opening line port stream slot) s =
        stor_over port (bind_task (opened args ?t stream slot) (stor_rest lib args ?t line) s)"
      using o Inl
      by (auto simp: connect_data_def opened_def stor_rest_def bind_task_def scoped_def give_def modify_def stop_def
          no_channel_def split: prod.splits sum.splits)
    then show ?thesis by (rule alone_last [rotated]) simp
  qed
qed

lemma leads_accepting:
  assumes "t_others (ts k) = id"
  shows "leads (alone lib args opn ts) (k, Accepting line port, s)
    (after k (stor_over port (bind_task (open_channel args (ts k)) (stor_rest lib args (ts k) line) s)))"
proof -
  let ?t = "ts k"
  obtain q m where q: "accept_client_data (if require_data_ip_match (arg_limits args)
      then Some (sa_ip (peer_addr args)) else None) (t_accepts ?t) (s_metrics s) = (q, m)" by fastforce
  let ?s = "s\<lparr>s_metrics := m\<rparr>"
  have rest: "leads (alone lib args opn ts) (k, Accepting line port, s) (after k (stor_over port (stor_rest lib args ?t line (None, False) ?s)))"
    if "advance lib args opn ?t (Accepting line port) s = no_channel port ?s"
    using that by (intro alone_last) (simp_all add: no_channel_rest [of port ?s lib args ?t line])
  show ?thesis
  proof (cases "\<exists>stream peer. q = Ready (Inr (stream, peer))")
    case False
    then have "advance lib args opn ?t (Accepting line port) s = no_channel port ?s"
      and "bind_task (open_channel args ?t) (stor_rest lib args ?t line) s = stor_rest lib args ?t line (None, False) ?s"
      using q by (auto simp: accept_data_def open_channel_pieces bind_task_def split: timed.splits sum.splits)
    with rest show ?thesis by simp
  next
    case True
    then obtain stream peer where st: "q = Ready (Inr (stream, peer))" by blast
    show ?thesis
    proof (cases "s_rotator s = None \<or> source_ip s = None")
      case True
      then have "advance lib args opn ?t (Accepting line port) s = (Opening line port stream None, ?s)"
        and "bind_task (open_channel args ?t) (stor_rest lib args ?t line) s =
          bind_task (opened args ?t stream None) (stor_rest lib args ?t line) ?s"
        using q st by (auto simp: accept_data_def open_channel_pieces bind_task_def claim_slot_def split: option.splits)
      then show ?thesis using alone_on [OF _ _ _ leads_opening, of "Accepting line port"] by simp
    next
      case False
      then obtain r src where r: "s_rotator s = Some r" "source_ip s = Some src" by auto
      let ?r1 = "slot_enter (fst (claim_key args)) (snd (claim_key args)) src r"
      let ?s1 = "?s\<lparr>s_rotator := Some ?r1\<rparr>"
      obtain g r2 where g: "slot_grant (fst (claim_key args)) (snd (claim_key args)) src ?r1 = (g, r2)" by fastforce
      have a: "advance lib args opn ?t (Accepting line port) s = (Claiming line port stream, ?s1)"
        using q st r by (simp add: accept_data_def)
      have c: "claim_slot args ?t ?s = (Inr (map_option Some g),
          ?s\<lparr>s_rotator := Some (if g = None then slot_elapsed (fst (claim_key args)) src r2 else r2)\<rparr>)"
        using g r assms by (auto simp: claim_slot_def acquire_data_slot_def claim_key_def split: option.splits)
      have "leads (alone lib args opn ts) (k, Claiming line port stream, ?s1)
          (after k (stor_over port (bind_task (open_channel args ?t) (stor_rest lib args ?t line) s)))"
      proof (cases g)
        case None
        then show ?thesis using g r q st c
          by (intro alone_last) (simp_all add: claim_data_def open_channel_pieces bind_task_def give_def
              no_channel_rest [of _ _ lib args ?t line])
      next
        case (Some y)
        then have "advance lib args opn ?t (Claiming line port stream) ?s1 =
            (Opening line port stream (Some y), ?s\<lparr>s_rotator := Some r2\<rparr>)"
          using g r by (simp add: claim_data_def)
        moreover have "bind_task (open_channel args ?t) (stor_rest lib args ?t line) s =
            bind_task (opened args ?t stream (Some y)) (stor_rest lib args ?t line) (?s\<lparr>s_rotator := Some r2\<rparr>)"
          using q st c Some by (simp add: open_channel_pieces bind_task_def)
        ultimately show ?thesis using alone_on [OF _ _ _ leads_opening, of "Claiming line port stream"] by simp
      qed
      then show ?thesis using a by (intro alone_on [of "Accepting line port"]) simp_all
    qed
  qed
qed

lemma session_turn_stor:
  "stor_line args s = Some (line, port, c) \<Longrightarrow>
     session_turn lib args t s = handle_stor lib args t line port (s\<lparr>client_conn := c\<rparr>)"
  by (auto simp: stor_line_def session_turn_def handle_line_def Let_def
      split: prod.splits timed.splits sum.splits if_splits ftp_command.splits option.splits)

lemma leads_waiting:
  assumes "t_others (ts k) = id"
  shows "leads (alone lib args opn ts) (k, Waiting, s) (after k (turn_over (session_turn lib args (ts k) s)))"
proof (cases "stor_line args s")
  case None
  then show ?thesis by (intro alone_last) simp_all
next
  case (Some x)
  obtain line port c where x: "x = (line, port, c)" by (cases x)
  have "turn_over (session_turn lib args (ts k) s) = stor_over port
      (bind_task (open_channel args (ts k)) (stor_rest lib args (ts k) line) (s\<lparr>client_conn := c, active_pasv := None\<rparr>))"
    using session_turn_stor [of args s line port c lib "ts k"] Some x
    by (simp add: handle_stor_pieces stor_over_scoped)
  moreover have "advance lib args opn (ts k) Waiting s = (Accepting line port, s\<lparr>client_conn := c, active_pasv := None\<rparr>)"
    using Some x by simp
  ultimately show ?thesis using alone_on [OF _ _ _ leads_accepting [of ts k, OF assms], of Waiting] by simp
qed

lemma leads_loop:
  assumes "\<forall>k. t_others (ts k) = id"
  shows "\<exists>k'. leads (alone lib args opn ts) (k, Waiting, s) (k', Over, end_session (session_loop lib args ts k s))"
  using assms
proof (induction lib args ts k s rule: session_loop.induct)
  case (1 lib args ts k s)
  obtain r s' where t: "session_turn lib args (ts k) s = (r, s')" by fastforce
  have w: "leads (alone lib args opn ts) (k, Waiting, s) (after k (turn_over (r, s')))"
    using leads_waiting [of ts k lib args opn s, unfolded t] "1.prems" by blast
  show ?case
  proof (cases "r = Inl Continue")
    case True
    with "1.IH" [OF t [symmetric] True refl "1.prems"] w show ?thesis
      by (subst session_loop.simps) (auto simp: t after_def intro: leads_trans)
  next
    case False
    then have "turn_over (r, s') = (Over, end_session s')"
      by (cases "(r, s')" rule: turn_over.cases) simp_all
    moreover have "session_loop lib args ts k s = s'"
      using False t by (subst session_loop.simps) (simp split: sum.split flow.split)
    ultimately show ?thesis using w by (auto simp: after_def)
  qed
qed



section \<open>What a session holds in each phase\<close>

fun phase_ports :: "phase \<Rightarrow> u16 multiset" where
  "phase_ports (Accepting _ port) = {#port#}"
| "phase_ports (Claiming _ port _) = {#port#}"
| "phase_ports (Opening _ port _ _) = {#port#}"
| "phase_ports (Starting _ port _) = {#port#}"
| "phase_ports (Relaying port _ _) = {#port#}"
| "phase_ports (Completing port _) = {#port#}"
| "phase_ports _ = {#}"

fun phase_metrics :: "phase \<Rightarrow> metric_guard multiset" where
  "phase_metrics Spawned = {#}"
| "phase_metrics Over = {#}"
| "phase_metrics (Relaying _ _ _) = {#SessionGuard, UploadGuard, AttemptGuard False#}"
| "phase_metrics (Completing _ _) = {#SessionGuard, UploadGuard, AttemptGuard False#}"
| "phase_metrics _ = {#SessionGuard#}"

fun phase_slots :: "phase \<Rightarrow> (ustr \<times> ipv4_addr) multiset" where
  "phase_slots (Opening _ _ _ slot) = slot_set slot"
| "phase_slots (Starting _ _ chan) = slot_set (data_slot chan)"
| "phase_slots (Relaying _ chan _) = slot_set (data_slot chan)"
| "phase_slots (Completing _ chan) = slot_set (data_slot chan)"
| "phase_slots _ = {#}"

text \<open>\<open>ps\<close>, \<open>ms\<close> and \<open>rs\<close> are what the other sessions hold.\<close>

definition in_phase ::
  "u16 multiset \<Rightarrow> metric_guard multiset \<Rightarrow> (ustr \<times> ipv4_addr) multiset \<Rightarrow> phase \<times> session \<Rightarrow> bool" where
  "in_phase ps ms rs = (\<lambda>(ph, s).
     held (ps + phase_ports ph + act (active_pasv s)) (ms + phase_metrics ph) (rs + phase_slots ph) (active_pasv s) s)"

lemma in_phaseI: "held (ps + phase_ports ph + act a) (ms + phase_metrics ph) (rs + phase_slots ph) a s \<Longrightarrow> in_phase ps ms rs (ph, s)"
  by (simp add: in_phase_def held_def)

lemma in_phase_settled:
  "phase_ports ph = {#} \<Longrightarrow> phase_slots ph = {#} \<Longrightarrow> in_phase ps ms rs (ph, s) \<longleftrightarrow> settled ps (ms + phase_metrics ph) rs s"
  by (auto simp: in_phase_def settled_def held_def)

lemma settled_end_session: "settled ps (add_mset SessionGuard ms) rs s \<Longrightarrow> in_phase ps ms rs (Over, end_session s)"
  using held_metrics [OF held_drop_active metrics_returned(3)]
  by (auto simp: settled_def end_session_def intro!: in_phaseI [of _ _ None] simp: act_def)

lemma in_phase_turn_over: "settled ps (add_mset SessionGuard ms) rs s \<Longrightarrow> in_phase ps ms rs (turn_over (r, s))"
  by (cases "(r, s)" rule: turn_over.cases) (simp_all add: settled_end_session in_phase_settled [of Waiting])

lemma in_phase_stor_over:
  "held (add_mset port (ps + act a)) (add_mset SessionGuard ms) rs a s \<Longrightarrow> in_phase ps ms rs (stor_over port (r, s))"
  by (auto simp: stor_over_def intro!: in_phase_turn_over settledI dest: held_drop_port)

lemma in_phase_no_channel:
  assumes "held (add_mset port (ps + act a)) (add_mset SessionGuard ms) rs a s"
  shows "in_phase ps ms rs (no_channel port s)"
proof -
  obtain r :: "flow + unit" and s' where w: "bind_task (client_write (reply_line ''425 Can't open data connection'')) (\<lambda>_. stop Continue) s = (r, s')"
    by fastforce
  from keepsD [OF held_pass_on assms w] show ?thesis
    using w by (simp add: no_channel_def in_phase_stor_over)
qed

lemma session_turn_others:
  "stor_line args s = None \<Longrightarrow> session_turn lib args t s = session_turn lib args (t\<lparr>t_others := id\<rparr>) s"
  by (auto simp: stor_line_def session_turn_def handle_line_def Let_def handle_pasv_def allocate_port_def [abs_def]
      split: prod.splits timed.splits sum.splits if_splits ftp_command.splits option.splits)

lemma in_phase_waiting:
  assumes "in_phase ps ms rs (Waiting, s)"
  shows "in_phase ps ms rs (advance lib args opn t Waiting s)"
proof (cases "stor_line args s")
  case None
  obtain r s' where t: "session_turn lib args t s = (r, s')" by fastforce
  have f: "fair_others (t\<lparr>t_others := id\<rparr>)" by (simp add: fair_others_def)
  have "settled ps (add_mset SessionGuard ms) rs s'"
    using settled_turn [OF _ f] assms t session_turn_others [OF None, of lib t] by (simp add: in_phase_settled)
  then show ?thesis using None t by (simp add: in_phase_turn_over)
next
  case (Some x)
  obtain line port c where x: "x = (line, port, c)" by (cases x)
  have "active_pasv s = Some port"
    using Some x by (auto simp: stor_line_def Let_def split: prod.splits timed.splits sum.splits if_splits
        ftp_command.splits option.splits)
  then show ?thesis using Some x assms by (simp add: in_phase_def held_def act_def)
qed

lemma in_phase_accepting:
  assumes "in_phase ps ms rs (Accepting line port, s)"
  shows "in_phase ps ms rs (accept_data args t line port s)"
proof -
  let ?a = "active_pasv s"
  obtain q m where q: "accept_client_data (if require_data_ip_match (arg_limits args)
      then Some (sa_ip (peer_addr args)) else None) (t_accepts t) (s_metrics s) = (q, m)" by fastforce
  have h: "held (add_mset port (ps + act ?a)) (add_mset SessionGuard ms) rs ?a (s\<lparr>s_metrics := m\<rparr>)"
    by (rule held_metrics [OF _ accept_quiet [OF _ q]]) (use assms in \<open>simp_all add: in_phase_def\<close>)
  have "slots_inv r rs \<Longrightarrow> slots_inv (slot_enter b cap src r) rs" for r b cap src
    using slot_pool.acquire_none [of r rs "EnterSlot b cap src"] by simp
  then have "in_phase ps ms rs (Claiming line port stream, s\<lparr>s_metrics := m, s_rotator := Some (slot_enter b cap src r)\<rparr>)"
    if "s_rotator s = Some r" for stream b cap src r
    using that h by (intro in_phaseI [of _ _ ?a]) (simp add: held_def)
  moreover have "in_phase ps ms rs (Opening line port stream None, s\<lparr>s_metrics := m\<rparr>)" for stream
    using h by (intro in_phaseI [of _ _ ?a]) (simp add: slot_set_def)
  ultimately show ?thesis
    using in_phase_no_channel [OF h] by (simp add: accept_data_def q split: timed.split sum.split option.split prod.split)
qed

lemma in_phase_claiming:
  assumes "in_phase ps ms rs (Claiming line port stream, s)"
  shows "in_phase ps ms rs (claim_data args line port stream s)"
proof -
  let ?a = "active_pasv s" and ?b = "fst (claim_key args)" and ?cap = "snd (claim_key args)"
  have h: "held (add_mset port (ps + act ?a)) (add_mset SessionGuard ms) rs ?a s" using assms by (simp add: in_phase_def)
  show ?thesis
  proof (cases "s_rotator s = None \<or> source_ip s = None")
    case True
    then show ?thesis using in_phase_no_channel [OF h] by (auto simp: claim_data_def split: option.splits)
  next
    case False
    then obtain r src where r: "s_rotator s = Some r" "source_ip s = Some src" by auto
    then have i: "slots_inv r rs" using h by (simp add: held_def)
    obtain g r' where g: "slot_grant ?b ?cap src r = (g, r')" by fastforce
    show ?thesis
    proof (cases g)
      case None
      have "slots_inv (slot_elapsed ?b src r') rs"
        using slot_pool.acquire_none [OF i, of "GrantSlot ?b ?cap src"] slot_pool.acquire_none [of r' rs "ElapseSlot ?b src"] g None
        by simp
      then have "held (add_mset port (ps + act ?a)) (add_mset SessionGuard ms) rs ?a
          (s\<lparr>s_rotator := Some (slot_elapsed ?b src r')\<rparr>)"
        using h by (simp add: held_def)
      from in_phase_no_channel [OF this] show ?thesis using r g None by (simp add: claim_data_def)
    next
      case (Some y)
      then have "slots_inv r' (add_mset y rs)" using slot_grant_Some [OF i] g by simp
      then show ?thesis using h r g Some by (simp add: claim_data_def in_phase_def held_def slot_set_def)
    qed
  qed
qed

lemma in_phase_opening:
  assumes "in_phase ps ms rs (Opening line port stream slot, s)"
  shows "in_phase ps ms rs (connect_data args t line port stream slot s)"
proof -
  let ?a = "active_pasv s"
  obtain x s1 where o: "open_data args t s = (Inr x, s1)"
    by (cases "open_data args t s") (auto simp: open_data_def split: prod.splits)
  have h: "held (add_mset port (ps + act ?a)) (add_mset SessionGuard ms) (rs + slot_set slot) ?a s1"
    using keepsD [OF held_open_data _ o] assms by (simp add: in_phase_def)
  show ?thesis
  proof (cases x)
    case (Inr data)
    then show ?thesis using o h by (auto simp: connect_data_def intro!: in_phaseI)
  next
    case (Inl err)
    obtain y s2 where y: "data_connect_failed t err s1 = (y, s2)" by fastforce
    have "held (add_mset port (ps + act ?a)) (add_mset SessionGuard ms) rs ?a (release_slot slot s2)"
      using keepsD [OF held_data_connect_failed h y] by (rule held_release_slot)
    then show ?thesis using o Inl y
      by (auto simp: connect_data_def scoped_def in_phase_stor_over in_phase_no_channel split: sum.splits)
  qed
qed

lemma in_phase_starting:
  assumes "in_phase ps ms rs (Starting line port chan, s)"
  shows "in_phase ps ms rs (begin_transfer lib args t line port chan s)"
proof -
  let ?h = "\<lambda>gs. held (add_mset port (ps + act (active_pasv s))) (gs + ms) (rs + slot_set (data_slot chan)) (active_pasv s)"
  let ?att = "AttemptGuard False" and ?r = "secure_data lib args t (backend_data chan)"
  obtain x s1 where st: "on_stop (start_transfer args line) (on_metrics (drop_upload_attempt False))
      (on_metrics upload_attempted s) = (x, s1)" by fastforce
  have "?h {#?att, SessionGuard#} (on_metrics upload_attempted s)"
    using assms by (auto simp: in_phase_def intro: held_metrics metrics_taken)
  then have "held (add_mset port (ps + act (active_pasv s))) (add_mset ?att (add_mset SessionGuard ms))
      (rs + slot_set (data_slot chan)) (active_pasv s) (on_metrics upload_attempted s)" by simp
  then have s1: "case x of Inl f \<Rightarrow> ?h {#SessionGuard#} s1 | Inr u \<Rightarrow> ?h {#?att, SessionGuard#} s1"
    using tripleD [OF held_attempt_on_stop [where x = False and ms = "add_mset SessionGuard ms", OF held_start_transfer] _ st]
    by (cases x) fastforce+
  show ?thesis
  proof (cases x)
    case (Inl f)
    then show ?thesis using st s1 by (auto simp: begin_transfer_def intro!: in_phase_stor_over held_release_slot)
  next
    case (Inr u)
    then have "?h {#?att, SessionGuard#} (observe_data_error ?r s1)"
      using s1 by (auto simp: observe_data_error_def split: sum.splits intro!: held_metrics)
    then have "?h {#UploadGuard, ?att, SessionGuard#} (on_metrics upload_started (observe_data_error ?r s1))"
      by (auto intro: held_metrics metrics_taken)
    then show ?thesis using st Inr
      by (auto simp: begin_transfer_def Let_def add_mset_commute intro!: in_phaseI)
  qed
qed

lemma held_drop_upload: "held ps (add_mset UploadGuard ms) rs a s \<Longrightarrow> held ps ms rs a (on_metrics drop_upload_guard s)"
  by (auto intro: held_metrics metrics_returned)

lemma in_phase_completing:
  assumes "in_phase ps ms rs (Completing port chan, s)"
  shows "in_phase ps ms rs (complete_transfer args port chan s)"
proof -
  let ?h = "\<lambda>gs. held (add_mset port (ps + act (active_pasv s))) (gs + add_mset SessionGuard ms)"
  let ?rs = "rs + slot_set (data_slot chan)" and ?a = "active_pasv s" and ?att = "AttemptGuard False"
  let ?reply = "backend_reply args ''426 Connection closed; transfer aborted'' Break"
  let ?failed = "on_metrics (drop_upload_attempt False)"
  have t: "triple (?h {#UploadGuard, ?att#} ?rs ?a) (on_stop ?reply ?failed)
      (\<lambda>_. ?h {#UploadGuard, ?att#} ?rs ?a) (?h {#UploadGuard#} ?rs ?a)"
    using held_attempt_on_stop [OF held_backend_reply, of _ False "add_mset UploadGuard (add_mset SessionGuard ms)"]
    by (simp add: add_mset_commute)
  have f: "triple (?h {#UploadGuard, ?att#} ?rs ?a) (finish_upload completion) (\<lambda>_. ?h {#UploadGuard#} ?rs ?a)
      (?h {#UploadGuard#} ?rs ?a)" for completion
    using held_finish_upload [of _ False "add_mset UploadGuard (add_mset SessionGuard ms)"] by (simp add: add_mset_commute)
  have d: "triple (?h {#UploadGuard, ?att#} ?rs ?a)
      (scoped (bind_task (on_stop ?reply ?failed) finish_upload) (on_metrics drop_upload_guard))
      (\<lambda>_. ?h {#} ?rs ?a) (?h {#} ?rs ?a)"
    by (rule triple_scoped [OF triple_bind [OF t f]])
      (auto simp: add_mset_commute [of SessionGuard UploadGuard] intro: held_drop_upload)
  have "triple (?h {#UploadGuard, ?att#} ?rs ?a)
      (scoped (scoped (bind_task (on_stop ?reply ?failed) finish_upload) (on_metrics drop_upload_guard))
        (release_slot (data_slot chan))) (\<lambda>_. ?h {#} rs ?a) (?h {#} rs ?a)"
    by (rule triple_scoped [OF d]) (auto intro: held_release_slot)
  moreover have "?h {#UploadGuard, ?att#} ?rs ?a s" using assms by (simp add: in_phase_def add_mset_commute)
  ultimately show ?thesis
    unfolding complete_transfer_def triple_def
    by (fastforce split: prod.splits sum.splits intro: in_phase_stor_over)
qed

text \<open>Every step keeps the account.\<close>

lemma advance_in_phase:
  assumes i: "in_phase ps ms rs (ph, s)"
  shows "in_phase ps ms rs (advance lib args opn t ph s)"
proof (cases ph)
  case Spawned
  with i show ?thesis by (auto simp: in_phase_def intro: held_metrics metrics_taken)
next
  case Connecting
  obtain ok s1 where c: "connect_backend args opn s = (ok, s1)" by fastforce
  have "settled ps (add_mset SessionGuard ms) rs s1"
    using settled_connect_backend [OF c] i Connecting by (simp add: in_phase_settled)
  then show ?thesis using c Connecting
    by (cases ok) (simp_all add: settled_end_session in_phase_settled [of Greeting])
next
  case Greeting
  obtain r s1 where g: "greet lib args s = (r, s1)" by fastforce
  have "settled ps (add_mset SessionGuard ms) rs s1"
    using settled_greet [OF _ g] i Greeting by (simp add: in_phase_settled)
  then show ?thesis using g Greeting
    by (cases r) (simp_all add: settled_end_session in_phase_settled [of Waiting])
next
  case Waiting
  with i show ?thesis using in_phase_waiting by blast
next
  case (Relaying port chan r)
  with i have "held (ps + phase_ports ph + act (active_pasv s)) (ms + phase_metrics ph) (rs + phase_slots ph) (active_pasv s)
      (run_relay args t (client_data chan) r s)" by (auto simp: in_phase_def intro: held_run_relay)
  with Relaying show ?thesis by (auto intro: in_phaseI)
qed (use i in \<open>simp_all add: in_phase_accepting in_phase_claiming in_phase_opening in_phase_starting in_phase_completing\<close>)

text \<open>A session that is over announces no port.\<close>

definition over_clean :: "phase \<times> session \<Rightarrow> bool" where
  "over_clean = (\<lambda>(ph, s). is_Over ph \<longrightarrow> active_pasv s = None)"

lemma over_clean_end [simp]: "over_clean (ph, end_session s)"
  by (simp add: over_clean_def end_session_def drop_active_pasv_def split: option.splits)

lemma over_clean_turn_over [simp]: "over_clean (turn_over p)"
  by (cases p rule: turn_over.cases) (simp_all, simp_all add: over_clean_def)

lemma over_clean_stor_over [simp]: "over_clean (stor_over port p)" "over_clean (no_channel port s)"
  by (simp_all add: stor_over_def no_channel_def split: prod.splits)

lemma over_clean_phase [simp]: "\<not> is_Over ph \<Longrightarrow> over_clean (ph, s)"
  by (simp add: over_clean_def)

lemma advance_over_clean: "\<not> is_Over ph \<Longrightarrow> over_clean (advance lib args opn t ph s)"
  by (cases ph) (simp_all add: accept_data_def claim_data_def connect_data_def begin_transfer_def complete_transfer_def
      Let_def split: prod.splits sum.splits option.splits timed.splits bool.splits)

section \<open>Properties of every step\<close>

text \<open>What the values of a phase are: the line of a transfer is a command that may be forwarded, and
  the connection of a relay was secured as the configuration asks.\<close>

fun phase_ok :: "rustls \<Rightarrow> session_args \<Rightarrow> phase \<Rightarrow> bool" where
  "phase_ok lib args (Accepting line _) = vetted line"
| "phase_ok lib args (Claiming line _ _) = vetted line"
| "phase_ok lib args (Opening line _ _ _) = vetted line"
| "phase_ok lib args (Starting line _ _) = vetted line"
| "phase_ok lib args (Relaying _ _ r) = (\<exists>t d. r = secure_data lib args t d)"
| "phase_ok lib args _ = True"

lemma stor_line_vetted: "stor_line args s = Some (line, port, c) \<Longrightarrow> vetted line"
  by (auto simp: stor_line_def vetted_def body_of_def Let_def
      split: prod.splits timed.splits sum.splits if_splits ftp_command.splits option.splits
      intro: read_single_line)

text \<open>A property that every turn keeps is kept by every step between two turns.\<close>

definition framed :: "(session \<Rightarrow> bool) \<Rightarrow> rustls \<Rightarrow> session_args \<Rightarrow> phase \<times> session \<Rightarrow> bool" where
  "framed P lib args = (\<lambda>(ph, s). P s \<and> phase_ok lib args ph)"

lemma framed_pair [simp]: "framed P lib args (ph, s) \<longleftrightarrow> P s \<and> phase_ok lib args ph"
  by (simp add: framed_def)

context session_frame
begin

lemma framed_turn_over: "P s \<Longrightarrow> framed P lib args (turn_over (r, s))"
  by (cases "(r, s)" rule: turn_over.cases) (simp_all add: end_session_def drop_active_pasv metrics)

lemma framed_stor_over: "P s \<Longrightarrow> framed P lib args (stor_over port (r, s))"
  by (simp add: stor_over_def framed_turn_over ports)

lemma framed_task: "keeps P t \<Longrightarrow> P s \<Longrightarrow> framed P lib args (stor_over port (t s))"
  using keepsD [of P t s] by (cases "t s") (auto simp: framed_stor_over)

lemma framed_no_channel: "P s \<Longrightarrow> framed P lib args (no_channel port s)"
  by (simp add: no_channel_def framed_task reject)

lemma framed_waiting: "P s \<Longrightarrow> framed P lib args (advance lib args opn t Waiting s)"
proof (cases "stor_line args s")
  case None
  assume "P s"
  then show ?thesis using None session_turn [of s lib t]
    by (cases "session_turn lib args t s") (simp add: framed_turn_over)
next
  case (Some x)
  assume s: "P s"
  obtain line port c where x: "x = (line, port, c)" by (cases x)
  obtain n where "read_line_bounded (max_command_line_bytes (arg_limits args)) (client_conn s) = (Ready (Inr (n, line)), c)"
    using Some x by (auto simp: stor_line_def Let_def split: prod.splits timed.splits sum.splits if_splits
        ftp_command.splits option.splits)
  then have "P (s\<lparr>client_conn := c\<rparr>)" using client_in [OF s] read_line_bounded_reads by blast
  from pasv [OF this, of None] show ?thesis using Some x stor_line_vetted [of args s] by simp
qed

lemma framed_opening: "P s \<Longrightarrow> vetted line \<Longrightarrow> framed P lib args (connect_data args t line port stream slot s)"
proof -
  assume s: "P s" and line: "vetted line"
  obtain x s1 where o: "open_data args t s = (x, s1)" by fastforce
  have s1: "P s1" by (rule keepsD [OF open_data s o])
  have "keeps P (scoped (data_connect_failed t err) (release_slot slot))" for err
    by (intro task_rules data_connect_failed release_slot)
  then have f: "P s2" if "scoped (data_connect_failed t err) (release_slot slot) s1 = (y, s2)" for err y s2
    using keepsD s1 that by blast
  show ?thesis
    using o s1 line f
    by (auto simp: connect_data_def framed_stor_over framed_no_channel release_slot tell_client split: sum.splits prod.splits)
qed

lemma framed_starting: "P s \<Longrightarrow> vetted line \<Longrightarrow> framed P lib args (begin_transfer lib args t line port chan s)"
proof -
  assume s: "P s" and line: "vetted line"
  obtain x s1 where st: "on_stop (start_transfer args line) (on_metrics (drop_upload_attempt False))
      (on_metrics upload_attempted s) = (x, s1)" by fastforce
  have k: "keeps P (on_stop (start_transfer args line) (on_metrics (drop_upload_attempt False)))"
    by (intro task_rules start_transfer line metrics)
  have "P (on_metrics upload_attempted s)" by (rule metrics [OF s])
  then have "P s1" using tripleD [OF k, of "on_metrics upload_attempted s" x s1] st by (cases x) simp_all
  then show ?thesis
    using st by (auto simp: begin_transfer_def Let_def framed_stor_over release_slot observe_data_error metrics
        split: sum.splits)
qed

lemma framed_completing: "P s \<Longrightarrow> framed P lib args (complete_transfer args port chan s)"
  unfolding complete_transfer_def
  by (rule framed_task) (auto intro!: task_rules backend_reply finish_upload metrics release_slot)

lemma framed_relay: "P s \<Longrightarrow> P (run_relay args t' c (secure_data lib args t d) s)"
  using relays [of s]
  by (auto simp: run_relay_def secure_data_def Let_def metrics split: option.splits sum.splits timed.splits)

lemma advance_framed:
  assumes "P s" and "phase_ok lib args ph" and "ph \<notin> {Spawned, Connecting, Greeting}"
  shows "framed P lib args (advance lib args opn t ph s)"
proof (cases ph)
  case (Accepting line port)
  with assms show ?thesis
    by (auto simp: accept_data_def metrics rotator framed_no_channel split: prod.splits timed.splits sum.splits option.splits)
next
  case (Claiming line port stream)
  with assms show ?thesis
    by (auto simp: claim_data_def rotator framed_no_channel split: prod.splits option.splits)
next
  case (Relaying port chan r)
  with assms show ?thesis by (auto intro: framed_relay)
qed (use assms framed_waiting in \<open>simp_all add: framed_opening framed_starting framed_completing\<close>)

end

end
