(* ===== verification/Concurrent_Gateway.thy ===== *)
theory Concurrent_Gateway
  imports Gateway_Main Session_Steps
begin

text \<open>
  The whole gateway with its sessions at work at the same time: the tasks that
  \<^verbatim>\<open>src/server/listener.rs\<close> spawns take their steps (\<open>Session_Steps\<close>) in any order on the shared
  port pool, metrics, DNS cache and source rotator, while clients arrive, sessions end and the
  rotator's own task refreshes its sources. Proved: in every reachable state the shared components
  account exactly for what the sessions hold.
\<close>

section \<open>State\<close>

text \<open>A spawned task: its entry with the listener, what \<^verbatim>\<open>handle\<close> was called with, where it
  waits, and its own variables.\<close>

record live =
  live_run :: running_session
  live_args :: session_args
  live_phase :: phase
  live_own :: session

record system =
  sys_gateway :: gateway
  sys_live :: "live list"

section \<open>Steps\<close>

text \<open>The components are shared: a step finds them as the last step of any task left them.\<close>

definition adopt :: "gateway \<Rightarrow> session \<Rightarrow> session" where
  "adopt gw s = s\<lparr>s_ports := gw_ports gw, s_metrics := gw_metrics gw, s_dns := gw_dns gw, s_rotator := gw_rotator gw\<rparr>"

definition publish :: "session \<Rightarrow> gateway \<Rightarrow> gateway" where
  "publish s gw = gw\<lparr>gw_ports := s_ports s, gw_metrics := s_metrics s, gw_dns := s_dns s, gw_rotator := s_rotator s\<rparr>"

definition spawned :: "nat \<Rightarrow> conn \<Rightarrow> gateway \<Rightarrow> running_session \<Rightarrow> live" where
  "spawned store client gw r =
     (let args = args_of gw r in
      \<lparr>live_run = r, live_args = args\<lparr>arg_tls := map_option (for_session store) (arg_tls args)\<rparr>,
       live_phase = Spawned, live_own = new_session client (gw_ports gw) (gw_metrics gw) (gw_dns gw) (gw_rotator gw)\<rparr>)"

definition sys_arrive :: "nat \<Rightarrow> conn \<Rightarrow> socket_addr \<Rightarrow> system \<Rightarrow> system" where
  "sys_arrive store client peer y =
     (let gw = accept_connection peer (sys_gateway y) in
      if gw_sessions gw = gw_sessions (sys_gateway y) then y\<lparr>sys_gateway := gw\<rparr>
      else y\<lparr>sys_gateway := gw, sys_live := sys_live y @ [spawned store client gw (last (gw_running gw))]\<rparr>)"

definition sys_advance :: "rustls \<Rightarrow> start_script \<Rightarrow> turn \<Rightarrow> nat \<Rightarrow> system \<Rightarrow> system" where
  "sys_advance lib opn t i y =
     (let l = sys_live y ! i in
      case advance lib (live_args l) opn t (live_phase l) (adopt (sys_gateway y) (live_own l)) of
        (ph, s) \<Rightarrow> y\<lparr>sys_gateway := publish s (sys_gateway y),
                     sys_live := (sys_live y)[i := l\<lparr>live_phase := ph, live_own := s\<rparr>]\<rparr>)"

definition sys_finish :: "nat \<Rightarrow> system \<Rightarrow> system" where
  "sys_finish i y = y\<lparr>sys_gateway := session_ended i (sys_gateway y), sys_live := drop_nth i (sys_live y)\<rparr>"

definition sys_refresh :: "interface_addr list io_result \<Rightarrow> system \<Rightarrow> system" where
  "sys_refresh listed y =
     y\<lparr>sys_gateway := (sys_gateway y)\<lparr>gw_rotator :=
        map_option (refresh_once listed (cfg_backend_source (gw_config (sys_gateway y)))) (gw_rotator (sys_gateway y))\<rparr>\<rparr>"

inductive sys_step :: "rustls \<Rightarrow> system \<Rightarrow> system \<Rightarrow> bool" for lib where
  arrive: "tx client = [] \<Longrightarrow> sys_step lib y (sys_arrive store client peer y)"
| progress: "i < length (sys_live y) \<Longrightarrow> \<not> is_Over (live_phase (sys_live y ! i)) \<Longrightarrow>
    sys_step lib y (sys_advance lib opn t i y)"
| finish: "i < length (sys_live y) \<Longrightarrow> is_Over (live_phase (sys_live y ! i)) \<Longrightarrow> sys_step lib y (sys_finish i y)"
| refresh: "sys_step lib y (sys_refresh listed y)"

definition sys_start :: "gateway \<Rightarrow> system" where
  "sys_start gw = \<lparr>sys_gateway = gw, sys_live = []\<rparr>"

section \<open>The account\<close>

definition ports_held :: "live \<Rightarrow> u16 multiset" where
  "ports_held l = phase_ports (live_phase l) + act (active_pasv (live_own l))"

abbreviation metrics_held :: "live \<Rightarrow> metric_guard multiset" where
  "metrics_held l \<equiv> phase_metrics (live_phase l)"

abbreviation slots_held :: "live \<Rightarrow> (ustr \<times> ipv4_addr) multiset" where
  "slots_held l \<equiv> phase_slots (live_phase l)"

definition all_held :: "(live \<Rightarrow> 'g multiset) \<Rightarrow> live list \<Rightarrow> 'g multiset" where
  "all_held f ls = sum_list (map f ls)"

lemma all_held_simps [simp]:
  "all_held f [] = {#}" "all_held f (ls @ ls') = all_held f ls + all_held f ls'" "all_held f (l # ls) = f l + all_held f ls"
  by (simp_all add: all_held_def)

lemma all_held_split:
  "i < length ls \<Longrightarrow> all_held f ls = all_held f (drop_nth i ls) + f (ls ! i)"
  by (subst id_take_nth_drop [of i ls]) (simp_all add: add_ac)

lemma all_held_update:
  "i < length ls \<Longrightarrow> all_held f (ls[i := l]) = all_held f (drop_nth i ls) + f l"
  by (simp add: upd_conv_take_nth_drop add_ac)

definition account :: "system \<Rightarrow> u16 multiset \<Rightarrow> metric_guard multiset \<Rightarrow> (ustr \<times> ipv4_addr) multiset \<Rightarrow> bool" where
  "account y ps ms rs \<longleftrightarrow>
     port_pool_inv (gw_ports (sys_gateway y)) ps \<and> metrics_inv (gw_metrics (sys_gateway y)) ms \<and>
     (\<forall>r. gw_rotator (sys_gateway y) = Some r \<longrightarrow> slots_inv r rs) \<and> (gw_rotator (sys_gateway y) = None \<longrightarrow> rs = {#})"

definition sys_inv :: "system \<Rightarrow> bool" where
  "sys_inv y \<longleftrightarrow> listener_inv (sys_gateway y) \<and> gw_running (sys_gateway y) = map live_run (sys_live y) \<and>
     (\<forall>l \<in> set (sys_live y). over_clean (live_phase l, live_own l)) \<and>
     account y (all_held ports_held (sys_live y)) (all_held metrics_held (sys_live y)) (all_held slots_held (sys_live y))"

lemma held_adopt: "held ps ms rs (active_pasv s) (adopt gw s) \<longleftrightarrow>
    port_pool_inv (gw_ports gw) ps \<and> metrics_inv (gw_metrics gw) ms \<and>
    (\<forall>r. gw_rotator gw = Some r \<longrightarrow> slots_inv r rs) \<and> (gw_rotator gw = None \<longrightarrow> rs = {#})"
  by (simp add: held_def adopt_def)

lemma active_adopt [simp]: "active_pasv (adopt gw s) = active_pasv s"
  by (simp add: adopt_def)

lemma publish_simps [simp]:
  "gw_ports (publish s gw) = s_ports s" "gw_metrics (publish s gw) = s_metrics s"
  "gw_rotator (publish s gw) = s_rotator s" "gw_running (publish s gw) = gw_running gw"
  "gw_config (publish s gw) = gw_config gw" "gw_limiter (publish s gw) = gw_limiter gw"
  "gw_selector (publish s gw) = gw_selector gw" "gw_sessions (publish s gw) = gw_sessions gw"
  by (simp_all add: publish_def)

lemma listener_inv_publish [simp]: "listener_inv (publish s gw) = listener_inv gw"
  by (simp add: listener_inv_def session_ok_def)

lemma listener_inv_rotator [simp]: "listener_inv (gw\<lparr>gw_rotator := r\<rparr>) = listener_inv gw"
  by (simp add: listener_inv_def session_ok_def)

lemma connection_rejected_quiet: "metrics_inv m M \<Longrightarrow> metrics_inv (connection_rejected m) M"
  by (simp add: metrics_inv_def connection_rejected_def)

lemma sys_inv_arrive: "sys_inv y \<Longrightarrow> sys_inv (sys_arrive store client peer y)"
proof -
  assume y: "sys_inv y"
  then have i: "listener_inv (sys_gateway y)" by (simp add: sys_inv_def)
  note i' = listener_inv_accept [OF i, of peer]
  show ?thesis
    using i
  proof (cases rule: accept_connection_cases [of "sys_gateway y" peer])
    case (refused l)
    with y i' connection_rejected_quiet show ?thesis by (auto simp: sys_arrive_def sys_inv_def account_def)
  next
    case (granted g l r sel)
    with y i' show ?thesis
      by (simp add: sys_arrive_def sys_inv_def account_def spawned_def Let_def new_session_def ports_held_def act_def)
  qed
qed

lemma sys_inv_advance:
  assumes y: "sys_inv y" and i: "i < length (sys_live y)" and o: "\<not> is_Over (live_phase (sys_live y ! i))"
  shows "sys_inv (sys_advance lib opn t i y)"
proof -
  let ?l = "sys_live y ! i" and ?gw = "sys_gateway y"
  let ?rest = "drop_nth i (sys_live y)"
  let ?in = "in_phase (all_held ports_held ?rest) (all_held metrics_held ?rest) (all_held slots_held ?rest)"
  obtain ph s where a: "advance lib (live_args ?l) opn t (live_phase ?l) (adopt ?gw (live_own ?l)) = (ph, s)" by fastforce
  have "?in (live_phase ?l, adopt ?gw (live_own ?l))"
    using y all_held_split [OF i, of ports_held] all_held_split [OF i, of metrics_held] all_held_split [OF i, of slots_held]
    by (simp add: sys_inv_def account_def in_phase_def held_adopt ports_held_def add.assoc del: drop_nth.simps)
  then have "?in (ph, s)" using advance_in_phase a by metis
  moreover have "over_clean (ph, s)" using advance_over_clean [OF o] a by metis
  then have "\<forall>l \<in> set ((sys_live y)[i := ?l\<lparr>live_phase := ph, live_own := s\<rparr>]). over_clean (live_phase l, live_own l)"
    using y set_update_subset_insert [of "sys_live y" i] by (fastforce simp: sys_inv_def)
  moreover have "(map live_run (sys_live y))[i := live_run ?l] = map live_run (sys_live y)"
    by (simp flip: map_update)
  ultimately show ?thesis using y i a
    by (simp add: sys_advance_def sys_inv_def account_def in_phase_def held_def ports_held_def all_held_update
        add.assoc map_update Let_def del: drop_nth.simps)
qed

lemma sys_inv_finish:
  assumes y: "sys_inv y" and i: "i < length (sys_live y)" and o: "is_Over (live_phase (sys_live y ! i))"
  shows "sys_inv (sys_finish i y)"
proof -
  have "live_phase (sys_live y ! i) = Over" using o by (cases "live_phase (sys_live y ! i)") simp_all
  moreover have a: "active_pasv (live_own (sys_live y ! i)) = None"
    using y i o nth_mem [OF i] by (fastforce simp: sys_inv_def over_clean_def)
  ultimately have "ports_held (sys_live y ! i) = {#}" "metrics_held (sys_live y ! i) = {#}" "slots_held (sys_live y ! i) = {#}"
    by (simp_all add: ports_held_def act_def)
  moreover note all_held_split [OF i, of ports_held] all_held_split [OF i, of metrics_held] all_held_split [OF i, of slots_held]
  moreover have "gw_running (session_ended i (sys_gateway y)) = map live_run (drop_nth i (sys_live y))"
    using y i by (simp add: sys_inv_def session_ended_def map_drop_nth del: drop_nth.simps)
  moreover have "gw_ports (session_ended i gw) = gw_ports gw" "gw_metrics (session_ended i gw) = gw_metrics gw"
    "gw_rotator (session_ended i gw) = gw_rotator gw" for gw
    by (simp_all add: session_ended_def)
  ultimately show ?thesis
    using y listener_inv_ended [of "sys_gateway y" i] set_drop_nth [of i "sys_live y"]
    by (auto simp: sys_finish_def sys_inv_def account_def simp del: drop_nth.simps)
qed

lemma refresh_slots: "slots_inv (refresh_once listed c r) rs = slots_inv r rs"
  by (simp add: refresh_once_def set_sources_def slots_inv_def slot_of_def Let_def split: sum.splits)

lemma sys_inv_refresh: "sys_inv y \<Longrightarrow> sys_inv (sys_refresh listed y)"
  by (auto simp: sys_refresh_def sys_inv_def account_def refresh_slots)

inductive_cases sys_stepE: "sys_step lib y y'"

lemma sys_inv_step: "sys_step lib y y' \<Longrightarrow> sys_inv y \<Longrightarrow> sys_inv y'"
  by (erule sys_stepE) (simp_all add: sys_inv_arrive sys_inv_advance sys_inv_finish sys_inv_refresh)

lemma sys_inv_reachable: "(sys_step lib)\<^sup>*\<^sup>* y y' \<Longrightarrow> sys_inv y \<Longrightarrow> sys_inv y'"
  by (induction rule: rtranclp_induct) (auto dest: sys_inv_step)

lemma sys_inv_start: "idle gw \<Longrightarrow> sys_inv (sys_start gw)"
  by (simp add: sys_inv_def sys_start_def idle_def account_def)

lemma accept_config [simp]: "gw_config (accept_connection peer gw) = gw_config gw"
  using listener_step_config [of gw "Arrived peer"] by simp

lemma ended_config [simp]: "gw_config (session_ended i gw) = gw_config gw"
  using listener_step_config [of gw "Ended i"] by simp

lemma sys_step_config: "sys_step lib y y' \<Longrightarrow> gw_config (sys_gateway y') = gw_config (sys_gateway y)"
  by (erule sys_stepE) (simp_all add: sys_arrive_def sys_advance_def sys_finish_def sys_refresh_def Let_def split: prod.splits)

lemma reachable_config: "(sys_step lib)\<^sup>*\<^sup>* y y' \<Longrightarrow> gw_config (sys_gateway y') = gw_config (sys_gateway y)"
  by (induction rule: rtranclp_induct) (auto simp: sys_step_config)

text \<open>Counting holders.\<close>

lemma count_all_held:
  "(\<And>l. count (f l) g \<le> 1) \<Longrightarrow> count (all_held f ls) g = length (filter (\<lambda>l. g \<in># f l) ls)"
proof (induction ls)
  case (Cons l ls)
  have "count (f l) g = (if g \<in># f l then 1 else 0)"
    using Cons.prems [of l] by (cases "count (f l) g") (simp_all add: not_in_iff le_Suc_eq flip: count_greater_zero_iff)
  with Cons show ?case by simp
qed simp

lemma set_all_held: "set_mset (all_held f ls) = (\<Union>l \<in> set ls. set_mset (f l))"
  by (induction ls) simp_all

lemma all_held_disjoint:
  assumes "\<forall>p. count (all_held f ls) p \<le> 1" and "i < length ls" and "j < length ls" and "i \<noteq> j"
  shows "set_mset (f (ls ! i)) \<inter> set_mset (f (ls ! j)) = {}"
proof -
  have "ls ! j \<in> set (drop_nth i ls)"
  proof (cases "j < i")
    case True
    then show ?thesis using assms(2) by (auto simp: in_set_conv_nth intro: exI [of _ j])
  next
    case False
    then have "ls ! j = drop (Suc i) ls ! (j - Suc i)" "j - Suc i < length (drop (Suc i) ls)"
      using assms(3,4) by simp_all
    then show ?thesis by (metis UnCI drop_nth.simps nth_mem set_append)
  qed
  then have j: "set_mset (f (ls ! j)) \<subseteq> set_mset (all_held f (drop_nth i ls))"
    by (auto simp: set_all_held simp del: drop_nth.simps)
  have "p \<notin># f (ls ! j)" if p: "p \<in># f (ls ! i)" for p
  proof
    assume "p \<in># f (ls ! j)"
    then have "0 < count (all_held f (drop_nth i ls)) p" "0 < count (f (ls ! i)) p"
      using j p by (auto simp del: drop_nth.simps)
    moreover have "count (all_held f (drop_nth i ls)) p + count (f (ls ! i)) p \<le> 1"
      using assms(1) all_held_split [OF assms(2), of f] by (metis count_union)
    ultimately show False by linarith
  qed
  then show ?thesis by blast
qed

text \<open>Whether a session is past its start, and whether it is moving a file.\<close>

definition in_session :: "live \<Rightarrow> bool" where
  "in_session l \<longleftrightarrow> live_phase l \<noteq> Spawned \<and> live_phase l \<noteq> Over"

fun transferring :: "phase \<Rightarrow> bool" where
  "transferring (Relaying _ _ _) = True"
| "transferring (Completing _ _) = True"
| "transferring _ = False"

lemma metrics_held_simps:
  "SessionGuard \<in># metrics_held l \<longleftrightarrow> in_session l" "count (metrics_held l) SessionGuard \<le> 1"
  "UploadGuard \<in># metrics_held l \<longleftrightarrow> transferring (live_phase l)" "count (metrics_held l) UploadGuard \<le> 1"
  "AttemptGuard b \<in># metrics_held l \<longleftrightarrow> transferring (live_phase l) \<and> \<not> b" "count (metrics_held l) (AttemptGuard b) \<le> 1"
  by (cases "live_phase l"; simp add: in_session_def)+

lemma slots_held_once: "count (slots_held l) g \<le> 1"
  by (cases "live_phase l") (simp_all add: slot_set_def split: option.splits)

lemma running_all_held: "running (all_held metrics_held ls) = length (filter (\<lambda>l. transferring (live_phase l)) ls)"
  using count_all_held [where ls = ls, OF metrics_held_simps(6) [of _ True]]
    count_all_held [where ls = ls, OF metrics_held_simps(6) [of _ False]]
  by (simp add: running_def metrics_held_simps)

lemma gauges_all_held:
  "count (all_held metrics_held ls) SessionGuard = length (filter in_session ls)"
  "count (all_held metrics_held ls) UploadGuard = length (filter (\<lambda>l. transferring (live_phase l)) ls)"
  using count_all_held [where ls = ls, OF metrics_held_simps(2)] count_all_held [where ls = ls, OF metrics_held_simps(4)]
  by (simp_all add: metrics_held_simps)


text \<open>Two clients from two addresses, under a limit of one per address: both tasks have started.\<close>

definition two_sessions :: "gateway \<Rightarrow> system" where
  "two_sessions gw =
     (let y = sys_arrive 1 short_client (SocketAddr (V4 (Ipv4 10 0 0 1)) 5001)
                (sys_arrive 0 short_client (SocketAddr (V4 LOCALHOST) 5000) (sys_start gw))
      in sys_advance accepting_tls short_start quiet_turn 1 (sys_advance accepting_tls short_start quiet_turn 0 y))"

lemma two_sessions_live:
  assumes "gw_limiter gw = new_ip_limiter 1"
  shows "map live_phase (sys_live (sys_arrive 1 short_client (SocketAddr (V4 (Ipv4 10 0 0 1)) 5001)
      (sys_arrive 0 short_client (SocketAddr (V4 LOCALHOST) 5000) (sys_start gw)))) = [Spawned, Spawned]"
  using assms
  by (simp add: sys_arrive_def sys_start_def spawned_def Let_def accept_connection_def try_acquire_def new_ip_limiter_def
      select_next_def LOCALHOST_def)


end
