(* ===== verification/Session_Safety.thy ===== *)
theory Session_Safety
  imports Session
begin

text \<open>
  What a whole session may write: to the backend only its own commands and single, supported
  client commands; with TLS required nothing in clear but the request for TLS, and no upload over
  a connection that is not TLS. Each is an interpretation of the contract of \<open>Session\<close>.
\<close>

section \<open>What reaches the backend\<close>

text \<open>The commands the gateway gives on its own.\<close>

definition gateway_commands :: "string list" where
  "gateway_commands = [''AUTH TLS'', ''PBSZ 0'', ''PROT P'', ''EPSV'', ''PASV'']"

text \<open>
  A client command that may be forwarded: one line, whose body has no line break and whose verb is
  supported and not one the gateway answers itself.
\<close>

definition one_command :: "ustr \<Rightarrow> bool" where
  "one_command line \<longleftrightarrow>
     (\<exists>body eol. line = body @ eol \<and> 13 \<notin> set body \<and> 10 \<notin> set body \<and>
        set eol \<subseteq> {13, 10} \<and> 10 \<notin> set (butlast eol) \<and>
        to_ascii_uppercase (fst (split_verb (trim body))) \<in>
          set supported_verbs - {lit ''PASV'', lit ''EPSV''})"

definition permitted :: "bytes \<Rightarrow> bool" where
  "permitted b \<longleftrightarrow> (\<exists>cmd \<in> set gateway_commands. prefix b (command_bytes cmd)) \<or>
     (\<exists>line. one_command line \<and> prefix b (utf8_encode line))"

lemma match_verb_verb: "\<forall>w. match_verb v rest \<noteq> Unknown w \<Longrightarrow> match_verb v rest \<noteq> Pasv \<Longrightarrow>
    match_verb v rest \<noteq> Epsv \<Longrightarrow> v \<in> set supported_verbs - {lit ''PASV'', lit ''EPSV''}"
proof -
  assume u: "\<forall>w. match_verb v rest \<noteq> Unknown w" and p: "match_verb v rest \<noteq> Pasv"
    and e: "match_verb v rest \<noteq> Epsv"
  have "match_verb (lit ''PASV'') rest = Pasv" "match_verb (lit ''EPSV'') rest = Epsv"
    by (simp_all add: match_verb_def lit_def ch_def)
  with p e have "v \<noteq> lit ''PASV''" "v \<noteq> lit ''EPSV''" by metis+
  moreover have "v \<in> set supported_verbs" using u match_verb_Unknown [of v rest] by metis
  ultimately show ?thesis by (simp only: Diff_iff insert_iff empty_iff simp_thms)
qed

lemma vetted_one_command: "vetted line \<Longrightarrow> one_command line"
proof -
  assume v: "vetted line"
  from trim_end_matches_prefix [of line "\<lambda>c. c = 13 \<or> c = 10"]
  obtain eol where eol: "line = body_of line @ eol" "\<forall>c \<in> set eol. c = 13 \<or> c = 10"
    unfolding body_of_def [symmetric] by (elim exE conjE)
  have "10 \<notin> set (butlast (body_of line @ eol))" using v eol(1) by (simp add: vetted_def single_line_def)
  then have "10 \<notin> set (butlast eol)" by (cases eol rule: rev_cases) (auto simp: butlast_append)
  moreover obtain v w where vw: "split_verb (trim (body_of line)) = (v, w)" by fastforce
  have "match_verb (to_ascii_uppercase v) w \<noteq> Pasv" "match_verb (to_ascii_uppercase v) w \<noteq> Epsv"
    "\<forall>u. match_verb (to_ascii_uppercase v) w \<noteq> Unknown u"
    using v vw by (auto simp: vetted_def parse_command_def)
  then have "to_ascii_uppercase (fst (split_verb (trim (body_of line)))) \<in>
      set supported_verbs - {lit ''PASV'', lit ''EPSV''}"
    unfolding vw fst_conv by (intro match_verb_verb)
  ultimately show "one_command line"
    using v eol unfolding one_command_def vetted_def has_embedded_line_break_def by blast
qed

text \<open>What the steps write: an extension of what was there, each write on the channel as it was.\<close>

definition extends :: "(bytes \<Rightarrow> bool) \<Rightarrow> conn \<Rightarrow> conn \<Rightarrow> bool" where
  "extends ok c c' \<longleftrightarrow> secure c' = secure c \<and>
     (\<exists>ms. tx c' = tx c @ ms \<and> (\<forall>(s, b) \<in> set ms. s = secure c \<and> ok b))"

lemma extends_refl: "extends ok c c"
  by (auto simp: extends_def)

lemma extends_trans: "extends ok a b \<Longrightarrow> extends ok b c \<Longrightarrow> extends ok a c"
  by (fastforce simp: extends_def)

lemma reads_extends: "reads c c' \<Longrightarrow> extends ok c c'"
  by (auto simp: reads_def extends_def)

lemma write_all_extends:
  "(\<And>m. prefix m bs \<Longrightarrow> ok m) \<Longrightarrow> extends ok c (snd (write_all bs c))"
  using write_all_sends [of bs c] by (cases "write_all bs c") (auto simp: extends_def)

lemma command_reply_extends:
  "(\<And>m. prefix m (command_bytes command) \<Longrightarrow> ok m) \<Longrightarrow> command_reply command limits c = (r, c') \<Longrightarrow>
     extends ok c c'"
  using command_reply_sends [of command limits c r c'] by (auto simp: extends_def)

lemma passive_reply_extends:
  assumes "\<And>m. prefix m (command_bytes ''EPSV'') \<or> prefix m (command_bytes ''PASV'') \<Longrightarrow> ok m"
    and "passive_reply limits c = (r, c')"
  shows "extends ok c c'"
proof -
  have e: "extends ok c c'" if "command_reply cmd limits c = (r, c')" "cmd \<in> {''EPSV'', ''PASV''}" for cmd c c' r
    using that assms(1) by (intro command_reply_extends [of cmd ok limits c r c']) auto
  show ?thesis
    using assms(2)
    by (auto simp: passive_reply_def split: backend_passive_mode.splits prod.splits sum.splits if_splits
        dest!: e intro: extends_trans)
qed

lemma open_data_extends:
  assumes "\<And>m. prefix m (command_bytes ''EPSV'') \<or> prefix m (command_bytes ''PASV'') \<Longrightarrow> ok m"
    and "open_backend_data_connection net ip limits peer c = (r, c')"
  shows "extends ok c c'"
proof -
  obtain q d where q: "passive_reply limits c = (q, d)" by fastforce
  then have "c' = d" using assms(2)
    by (auto simp: open_backend_data_connection_def split: sum.splits prod.splits timed.splits)
  with passive_reply_extends [OF assms(1) q] show ?thesis by simp
qed

definition all_permitted :: "conn \<Rightarrow> bool" where
  "all_permitted c \<longleftrightarrow> (\<forall>(s, b) \<in> set (tx c). permitted b)"

lemma all_permitted_extends: "all_permitted c \<Longrightarrow> extends permitted c c' \<Longrightarrow> all_permitted c'"
  by (fastforce simp: all_permitted_def extends_def)

lemma gateway_permitted:
  "cmd \<in> set gateway_commands \<Longrightarrow> prefix m (command_bytes cmd) \<Longrightarrow> permitted m"
  by (auto simp: permitted_def)

lemma passive_permitted: "prefix m (command_bytes ''EPSV'') \<or> prefix m (command_bytes ''PASV'') \<Longrightarrow> permitted m"
  using gateway_permitted [of "''EPSV''" m] gateway_permitted [of "''PASV''" m]
  by (auto simp: gateway_commands_def)

interpretation backend_traffic: session_frame "\<lambda>s. all_permitted (backend_conn s)" args for args
proof unfold_locales
  fix s :: session and line
  assume "all_permitted (backend_conn s)" and "vetted line"
  then show "all_permitted (backend_conn (s\<lparr>backend_conn := snd (write_all (utf8_encode line) (backend_conn s))\<rparr>))"
    using vetted_one_command
    by (auto intro!: all_permitted_extends [of "backend_conn s"] write_all_extends simp: permitted_def)
qed (auto intro: all_permitted_extends reads_extends open_data_extends passive_permitted)

lemma negotiate_permitted:
  assumes "all_permitted c" and "negotiate_explicit_ftps lib connector host m c = (r, c')"
  shows "all_permitted c'"
proof -
  have step: "all_permitted c'" if "command_expecting cmd code m c = (r, c')" "all_permitted c"
    "cmd \<in> set gateway_commands" for cmd code c r c'
    using command_expecting_sends [OF that(1)] that(2,3)
    by (auto simp: all_permitted_def intro: gateway_permitted)
  have tls: "all_permitted c2" if "tls_connect lib connector host c1 = Ready (Inr c2)" "all_permitted c1" for c1 c2
    using tls_connect_secure [OF that(1)] that(2) by (simp add: all_permitted_def)
  show ?thesis
    using assms(2)
    by (cases rule: negotiate_cases)
      (use assms(1) step tls in \<open>auto simp: gateway_commands_def\<close>)
qed

lemma negotiate_traffic: "keeps (\<lambda>s. all_permitted (backend_conn s)) (negotiate lib args)"
  by (rule keepsI) (auto simp: negotiate_def tell_client_def split: option.splits prod.splits sum.splits
      dest: negotiate_permitted)

lemma greet_traffic: "keeps (\<lambda>s. all_permitted (backend_conn s)) (greet lib args)"
  unfolding greet_def
  by (intro task_rules backend_traffic.backend_reply negotiate_traffic backend_traffic.client_write)

lemma connect_sources_backend:
  "connect_sources args opn k sources s = (ok, s') \<Longrightarrow>
     (if ok then \<exists>c. backend_conn s' = fresh_stream c else backend_conn s' = backend_conn s)
     \<and> client_conn s' = client_conn s \<and> transfers s' = transfers s \<and> active_pasv s' = active_pasv s"
  by (induction args opn k sources s rule: connect_sources.induct) (auto split: prod.splits sum.splits)

lemma connect_backend_conn:
  "connect_backend args opn s = (ok, s') \<Longrightarrow>
     (if ok then \<exists>c. backend_conn s' = fresh_stream c else backend_conn s' = backend_conn s)
     \<and> client_conn s' = client_conn s \<and> transfers s' = transfers s \<and> active_pasv s' = active_pasv s"
  by (auto simp: connect_backend_def split: option.splits prod.splits sum.splits dest!: connect_sources_backend)

lemma end_session_conns [simp]:
  "backend_conn (end_session s) = backend_conn s" "client_conn (end_session s) = client_conn s"
  "transfers (end_session s) = transfers s"
  by (simp_all add: end_session_def drop_active_pasv_def split: option.splits)

lemma tell_client_conns [simp]:
  "backend_conn (tell_client msg s) = backend_conn s" "transfers (tell_client msg s) = transfers s"
  by (simp_all add: tell_client_def)

text \<open>C3: whatever a client sends and however the backend and the network behave, everything a
  session ever writes to its backend is one of the gateway's own commands or a single client
  command of the supported set: one line, without a line break in it, whose verb is supported and
  is neither \<^verbatim>\<open>PASV\<close> nor \<^verbatim>\<open>EPSV\<close> (or the beginning of one, when the write fails). No client can
  smuggle another command through.\<close>

theorem only_vetted_commands_reach_the_backend:
  assumes "(s, b) \<in> set (tx (backend_conn
      (handle lib args store opn ts (new_session client pm m d r))))"
  shows "(\<exists>cmd \<in> set gateway_commands. prefix b (command_bytes cmd)) \<or>
    (\<exists>line. one_command line \<and> prefix b (utf8_encode line))"
proof -
  let ?args = "args\<lparr>arg_tls := map_option (for_session store) (arg_tls args)\<rparr>"
  let ?s = "on_metrics session_started (new_session client pm m d r)"
  obtain ok s1 where c: "connect_backend ?args opn ?s = (ok, s1)" by fastforce
  then have s1: "all_permitted (backend_conn s1)"
    using connect_backend_conn [OF c]
    by (cases ok) (auto simp: all_permitted_def new_session_def fresh_stream_def new_conn_def)
  obtain g s2 where g: "greet lib ?args s1 = (g, s2)" by fastforce
  have s2: "all_permitted (backend_conn s2)" by (rule keepsD [OF greet_traffic s1 g])
  have "all_permitted (backend_conn (handle lib args store opn ts (new_session client pm m d r)))"
    using c s1 g s2 backend_traffic.session_loop [of s2 lib ?args ts 0]
    by (auto simp: handle_def Let_def split: sum.splits bool.splits)
  with assms show ?thesis by (auto simp: all_permitted_def permitted_def)
qed

theorem only_vetted_commands_reach_the_backend_witness:
  "(\<exists>cmd \<in> set gateway_commands. prefix (''NOOP'' @ [newline]) (command_bytes cmd)) \<or>
   (\<exists>line. one_command line \<and> prefix (''NOOP'' @ [newline]) (utf8_encode line))"
proof -
  have "(False, ''NOOP'' @ [newline]) \<in> set (tx (backend_conn (handle accepting_tls short_args 0 short_start
      (\<lambda>_. quiet_turn) (new_session short_client (new_port_manager default_port_range) new_metrics
        new_dns_cache None))))"
    using short_session by (simp add: Let_def)
  then show ?thesis by (rule only_vetted_commands_reach_the_backend)
qed

section \<open>TLS\<close>

text \<open>With TLS required: the connection is TLS, only the request for it went in clear, and every
  transfer ran over TLS.\<close>

definition over_tls :: "session_args \<Rightarrow> session \<Rightarrow> bool" where
  "over_tls args s \<longleftrightarrow> (arg_tls args \<noteq> None \<longrightarrow>
     secure (backend_conn s) \<and> clear_is_auth (tx (backend_conn s)) \<and>
     (\<forall>(tls, outcome) \<in> set (transfers s). tls))"

lemma clear_is_auth_append [simp]: "clear_is_auth (xs @ ys) \<longleftrightarrow> clear_is_auth xs \<and> clear_is_auth ys"
  by (auto simp: clear_is_auth_def)

lemma secure_extends:
  "extends ok c c' \<Longrightarrow> secure c \<Longrightarrow> clear_is_auth (tx c) \<Longrightarrow> secure c' \<and> clear_is_auth (tx c')"
  by (auto simp: extends_def clear_is_auth_def)

lemma over_tls_extends:
  "over_tls args s \<Longrightarrow> extends (\<lambda>_. True) (backend_conn s) c \<Longrightarrow> over_tls args (s\<lparr>backend_conn := c\<rparr>)"
  using secure_extends by (auto simp: over_tls_def)

lemma over_tls_frame [simp]:
  "over_tls args (s\<lparr>client_conn := c\<rparr>) = over_tls args s"
  "over_tls args (s\<lparr>s_metrics := m\<rparr>) = over_tls args s"
  "over_tls args (s\<lparr>s_ports := ps\<rparr>) = over_tls args s"
  "over_tls args (s\<lparr>s_rotator := ro\<rparr>) = over_tls args s"
  "over_tls args (s\<lparr>active_pasv := a\<rparr>) = over_tls args s"
  "over_tls args (s\<lparr>transfers := transfers s @ [(arg_tls args \<noteq> None, outcome)]\<rparr>) = over_tls args s"
  by (auto simp: over_tls_def)

interpretation tls_only: session_frame "over_tls args" args for args
  by unfold_locales (auto intro: over_tls_extends write_all_extends reads_extends open_data_extends
      simp del: not_None_eq)

text \<open>Until the connection is secured, nothing but the refusal is told to the client.\<close>

definition refused :: "session \<Rightarrow> bool" where
  "refused s \<longleftrightarrow> (\<forall>(sec, b) \<in> set (tx (client_conn s)).
     prefix b (utf8_encode (reply_line ''421 Service not available'')))"

definition unsecured :: "session \<Rightarrow> bool" where
  "unsecured s \<longleftrightarrow> \<not> secure (backend_conn s) \<and> tx (backend_conn s) = [] \<and> transfers s = [] \<and> refused s"

definition failed_closed :: "session \<Rightarrow> bool" where
  "failed_closed s \<longleftrightarrow> clear_is_auth (tx (backend_conn s)) \<and> transfers s = [] \<and> refused s"

lemma tell_refused: "refused s \<Longrightarrow> refused (tell_client (reply_line ''421 Service not available'') s)"
  using write_all_sends [of "utf8_encode (reply_line ''421 Service not available'')" "client_conn s"]
  by (cases "write_all (utf8_encode (reply_line ''421 Service not available'')) (client_conn s)")
    (auto simp: refused_def tell_client_def)

lemma refused_frame [simp]:
  "refused (s\<lparr>backend_conn := c\<rparr>) = refused s" "refused (s\<lparr>s_metrics := m\<rparr>) = refused s"
  by (simp_all add: refused_def)

lemma unsecured_failed: "unsecured s \<Longrightarrow> failed_closed s"
  by (simp add: unsecured_def failed_closed_def clear_is_auth_def)

lemma banner_unsecured:
  "triple unsecured (backend_reply args ''421 Service not available'' f) (\<lambda>_. unsecured) failed_closed"
proof -
  have "triple unsecured (backend_read args) (\<lambda>_. unsecured) failed_closed"
    unfolding triple_def backend_read_def
    by (auto split: prod.splits sum.splits dest!: read_line_with_timeout_reads
        simp: unsecured_def failed_closed_def reads_def clear_is_auth_def)
  moreover have "triple unsecured (case x of (n, line) \<Rightarrow> if n = 0
      then bind_task (modify (tell_client (reply_line ''421 Service not available''))) (\<lambda>_. stop f)
      else give line) (\<lambda>_. unsecured) failed_closed" for x :: "nat \<times> ustr"
    by (cases x) (auto simp: triple_def bind_task_def modify_def stop_def give_def unsecured_def
        failed_closed_def clear_is_auth_def intro: tell_refused)
  ultimately show ?thesis unfolding backend_reply_def by (rule triple_bind)
qed

lemma negotiate_secures:
  assumes "arg_tls args \<noteq> None"
  shows "triple unsecured (negotiate lib args) (\<lambda>_. over_tls args) failed_closed"
proof -
  have "case negotiate lib args s of (Inl f, s') \<Rightarrow> failed_closed s' | (Inr x, s') \<Rightarrow> over_tls args s'"
    if s: "unsecured s" for s
  proof -
    from assms obtain connector where tls: "arg_tls args = Some connector" by blast
    obtain r c where n: "negotiate_explicit_ftps lib connector (backend_host (arg_backend args))
        (max_command_line_bytes (arg_limits args)) (backend_conn s) = (r, c)" by fastforce
    have "\<not> secure (backend_conn s)" using s by (simp add: unsecured_def)
    from negotiate_sends [OF n this] s n tls show ?thesis
      by (auto simp: negotiate_def unsecured_def failed_closed_def over_tls_def split: sum.splits
          intro: tell_refused)
  qed
  then show ?thesis by (simp add: triple_def)
qed

lemma greet_secures:
  assumes "arg_tls args \<noteq> None"
  shows "triple unsecured (greet lib args) (\<lambda>_. over_tls args) (\<lambda>s. over_tls args s \<or> failed_closed s)"
proof -
  let ?e = "\<lambda>s. over_tls args s \<or> failed_closed s"
  have a: "triple unsecured (backend_reply args ''421 Service not available'' Return) (\<lambda>_. unsecured) ?e"
    by (rule triple_weaken [OF banner_unsecured]) simp_all
  have b: "triple unsecured (negotiate lib args) (\<lambda>_. over_tls args) ?e"
    by (rule triple_weaken [OF negotiate_secures [OF assms]]) simp_all
  have c: "triple (over_tls args) (client_write banner) (\<lambda>_. over_tls args) ?e" for banner
    by (rule triple_weaken [OF tls_only.client_write]) simp_all
  show ?thesis unfolding greet_def by (rule triple_bind [OF a triple_bind [OF b c]])
qed

text \<open>C4: with TLS towards the backend required, a session fails closed. The only bytes it ever
  sends the backend in clear are those of \<^verbatim>\<open>AUTH TLS\<close> (so no user name, password or file name),
  every upload runs over a TLS data connection, and a client whose session could not be secured
  is told nothing but that the service is not available: it never sees the banner.\<close>

theorem tls_session_fails_closed:
  assumes "arg_tls args \<noteq> None" and "tx client = []"
    and "s = handle lib args store opn ts (new_session client pm m d r)"
  shows "clear_is_auth (tx (backend_conn s)) \<and> (\<forall>(tls, outcome) \<in> set (transfers s). tls)
    \<and> (secure (backend_conn s) \<or>
       (\<forall>(sec, b) \<in> set (tx (client_conn s)). prefix b (utf8_encode (reply_line ''421 Service not available''))))"
proof -
  let ?args = "args\<lparr>arg_tls := map_option (for_session store) (arg_tls args)\<rparr>"
  let ?s = "on_metrics session_started (new_session client pm m d r)"
  have tls: "arg_tls ?args \<noteq> None" using assms(1) by simp
  have fin: ?thesis if "s = end_session q" "over_tls ?args q \<or> failed_closed q" for q
    using that tls by (auto simp: over_tls_def failed_closed_def refused_def)
  obtain ok s1 where c: "connect_backend ?args opn ?s = (ok, s1)" by fastforce
  then have s1: "unsecured s1"
    using connect_backend_conn [OF c] assms(2)
    by (cases ok) (auto simp: unsecured_def refused_def new_session_def fresh_stream_def new_conn_def)
  obtain g s2 where g: "greet lib ?args s1 = (g, s2)" by fastforce
  with greet_secures [OF tls, of lib] s1 have
    s2: "if isl g then over_tls ?args s2 \<or> failed_closed s2 else over_tls ?args s2"
    unfolding triple_def by (fastforce split: sum.splits)
  show ?thesis
  proof (cases ok)
    case False
    with c have "s = end_session (tell_client (reply_line ''421 Service not available'') s1)"
      using assms(3) by (simp add: handle_def Let_def)
    moreover have "failed_closed (tell_client (reply_line ''421 Service not available'') s1)"
      using s1 by (auto simp: failed_closed_def unsecured_def clear_is_auth_def intro: tell_refused)
    ultimately show ?thesis using fin by blast
  next
    case True
    then show ?thesis
      using c g s2 assms(3) fin tls_only.session_loop [of ?args s2 lib ts 0]
      by (cases g) (auto simp: handle_def Let_def)
  qed
qed

text \<open>The short session with TLS required, and a backend that does not offer it.\<close>

definition tls_args :: session_args where
  "tls_args = short_args\<lparr>arg_tls := Some plain_connector\<rparr>"

lemma tls_refused:
  "tx (backend_conn (handle accepting_tls tls_args 0 short_start (\<lambda>_. quiet_turn)
     (new_session short_client (new_port_manager default_port_range) new_metrics new_dns_cache None))) =
   [(False, command_bytes ''AUTH TLS'')]"
  by (simp add: handle_def tls_args_def for_session_def connect_backend_def connect_def connect_inner_def
      connect_from_def resolve_backend_def cached_def resolve_def new_dns_cache_def short_start_def short_args_def
      default_backend_config_def fresh_stream_def new_session_def greet_def task_evals new_conn_def
      plain_connector_def negotiate_def negotiate_explicit_ftps_def command_expecting_def read_reply_code_def
      MAX_REPLY_LINES_def read_reply_lines_numeral well_formed_reply_def digit_byte_def is_ascii_digit_def
      line_evals wire_evals write_all_def command_bytes_def)

theorem tls_session_fails_closed_witness:
  "let s = handle accepting_tls tls_args 0 short_start (\<lambda>_. quiet_turn)
     (new_session short_client (new_port_manager default_port_range) new_metrics new_dns_cache None) in
   tx (backend_conn s) = [(False, command_bytes ''AUTH TLS'')] \<and> clear_is_auth (tx (backend_conn s))"
proof -
  have t: "arg_tls tls_args \<noteq> None" and c: "tx short_client = []"
    by (simp_all add: tls_args_def short_client_def new_conn_def)
  have "clear_is_auth (tx (backend_conn (handle accepting_tls tls_args 0 short_start (\<lambda>_. quiet_turn)
     (new_session short_client (new_port_manager default_port_range) new_metrics new_dns_cache None))))"
    by (rule tls_session_fails_closed [OF t c refl, THEN conjunct1])
  with tls_refused show ?thesis unfolding Let_def by (rule conjI)
qed

end
