(* ===== verification/Concurrent_Safety.thy ===== *)
theory Concurrent_Safety
  imports Concurrent_Gateway Session_Safety
begin

text \<open>
  What the sessions of a gateway write to their backends and clients, at every moment of every
  interleaving: the safety of \<open>Session_Safety\<close>, carried through the steps of \<open>Session_Steps\<close> by the
  same interpretations.
\<close>

section \<open>One session\<close>

lemmas permitted_steps = session_frame.advance_framed [OF backend_traffic.session_frame_axioms]
lemmas tls_steps = session_frame.advance_framed [OF tls_only.session_frame_axioms]

fun connecting :: "phase \<Rightarrow> bool" where
  "connecting Spawned = True"
| "connecting Connecting = True"
| "connecting Greeting = True"
| "connecting _ = False"

text \<open>With TLS required a session is not yet secured, secured, or over and refused.\<close>

definition guarded :: "session_args \<Rightarrow> phase \<times> session \<Rightarrow> bool" where
  "guarded args = (\<lambda>(ph, s). arg_tls args \<noteq> None \<longrightarrow>
     (if connecting ph then unsecured s else over_tls args s \<or> is_Over ph \<and> failed_closed s))"

definition safe :: "rustls \<Rightarrow> session_args \<Rightarrow> phase \<times> session \<Rightarrow> bool" where
  "safe lib args p \<longleftrightarrow> framed (\<lambda>s. all_permitted (backend_conn s)) lib args p \<and> guarded args p"

lemma unsecured_conns:
  "unsecured s \<Longrightarrow> client_conn s' = client_conn s \<Longrightarrow> transfers s' = transfers s \<Longrightarrow>
     (\<exists>c. backend_conn s' = fresh_stream c) \<or> backend_conn s' = backend_conn s \<Longrightarrow> unsecured s'"
  by (auto simp: unsecured_def refused_def fresh_stream_def new_conn_def)

lemma closed_end [simp]: "failed_closed (end_session s) = failed_closed s" "over_tls args (end_session s) = over_tls args s"
  by (simp_all add: failed_closed_def over_tls_def refused_def)

lemma tell_failed_closed: "unsecured s \<Longrightarrow> failed_closed (tell_client (reply_line ''421 Service not available'') s)"
  by (auto simp: failed_closed_def unsecured_def clear_is_auth_def intro: tell_refused)

lemma advance_permitted:
  assumes "framed (\<lambda>s. all_permitted (backend_conn s)) lib args (ph, s)" and "\<not> is_Over ph"
  shows "framed (\<lambda>s. all_permitted (backend_conn s)) lib args (advance lib args opn t ph s)"
proof (cases "connecting ph")
  case False
  then have "ph \<notin> {Spawned, Connecting, Greeting}" by auto
  then show ?thesis using permitted_steps [of s lib args ph opn t] assms(1) by simp
next
  case True
  have "all_permitted (backend_conn s')" if "connect_backend args opn s = (ok, s')" for ok s'
    using connect_backend_conn [OF that] assms(1)
    by (cases ok) (auto simp: all_permitted_def fresh_stream_def new_conn_def)
  moreover have "all_permitted (backend_conn s')" if "greet lib args s = (r, s')" for r s'
    using keepsD [OF greet_traffic _ that] assms(1) by simp
  ultimately show ?thesis
    using True assms(1) by (cases ph) (auto split: prod.splits sum.splits bool.splits)
qed

lemma not_connecting_turn [simp]: "\<not> connecting (fst (turn_over p))"
  by (cases p rule: turn_over.cases) simp_all

lemma not_connecting_over [simp]: "\<not> connecting (fst (stor_over port q))" "\<not> connecting (fst (no_channel port s))"
  by (simp_all add: stor_over_def no_channel_def split: prod.splits)

lemma advance_not_connecting: "\<not> connecting ph \<Longrightarrow> \<not> connecting (fst (advance lib args opn t ph s))"
  by (cases ph) (simp_all add: accept_data_def claim_data_def connect_data_def begin_transfer_def complete_transfer_def
      Let_def split: prod.split sum.split option.split timed.split)

lemma advance_guarded:
  assumes "guarded args (ph, s)" and "phase_ok lib args ph" and "\<not> is_Over ph"
  shows "guarded args (advance lib args opn t ph s)"
proof (cases "arg_tls args = None")
  case True
  then show ?thesis by (simp add: guarded_def split: prod.splits)
next
  case tls: False
  show ?thesis
  proof (cases ph)
    case Spawned
    with assms(1) show ?thesis using unsecured_conns [of s "on_metrics session_started s"] by (simp add: guarded_def)
  next
    case Connecting
    then have s: "unsecured s" using assms(1) tls by (simp add: guarded_def)
    obtain ok s1 where c: "connect_backend args opn s = (ok, s1)" by fastforce
    have "unsecured s1" using connect_backend_conn [OF c] s by (auto intro: unsecured_conns [of s] split: if_splits)
    then show ?thesis using c Connecting by (cases ok) (simp_all add: guarded_def tell_failed_closed)
  next
    case Greeting
    then have s: "unsecured s" using assms(1) tls by (simp add: guarded_def)
    obtain r s1 where g: "greet lib args s = (r, s1)" by fastforce
    show ?thesis using tripleD [OF greet_secures [OF tls] s g] g Greeting by (cases r) (simp_all add: guarded_def)
  qed (use assms tls tls_steps [of args s lib ph opn t] advance_not_connecting [of ph lib args opn t s] in
      \<open>auto simp: guarded_def framed_def split: prod.splits\<close>)
qed

lemma advance_safe: "safe lib args (ph, s) \<Longrightarrow> \<not> is_Over ph \<Longrightarrow> safe lib args (advance lib args opn t ph s)"
  by (simp add: safe_def advance_permitted advance_guarded)

section \<open>All sessions\<close>

abbreviation live_safe :: "rustls \<Rightarrow> live \<Rightarrow> bool" where
  "live_safe lib l \<equiv> safe lib (live_args l) (live_phase l, live_own l)"

lemma safe_adopt: "safe lib args (ph, adopt gw s) = safe lib args (ph, s)"
  by (simp add: safe_def guarded_def adopt_def unsecured_def failed_closed_def over_tls_def refused_def)

lemma spawned_safe: "tx client = [] \<Longrightarrow> live_safe lib (spawned store client gw r)"
  by (simp add: spawned_def Let_def safe_def guarded_def all_permitted_def unsecured_def refused_def new_session_def new_conn_def)

lemma sys_step_safe:
  assumes "sys_step lib y y'" and "\<forall>l \<in> set (sys_live y). live_safe lib l"
  shows "\<forall>l \<in> set (sys_live y'). live_safe lib l"
  using assms(1)
proof (cases rule: sys_step.cases)
  case (arrive client store peer)
  then show ?thesis using assms(2) spawned_safe by (auto simp: sys_arrive_def Let_def)
next
  case (progress i opn t)
  let ?l = "sys_live y ! i"
  obtain ph s where a: "advance lib (live_args ?l) opn t (live_phase ?l) (adopt (sys_gateway y) (live_own ?l)) = (ph, s)"
    by fastforce
  have "live_safe lib ?l" using assms(2) progress(2) nth_mem by blast
  then have "safe lib (live_args ?l) (ph, s)" using advance_safe [of lib "live_args ?l"] safe_adopt progress(3) a by metis
  then show ?thesis
    using progress(1) a assms(2) set_update_subset_insert [of "sys_live y" i]
    by (fastforce simp: sys_advance_def Let_def)
next
  case (finish i)
  then show ?thesis using assms(2) set_drop_nth [of i "sys_live y"] by (auto simp: sys_finish_def simp del: drop_nth.simps)
next
  case (refresh listed)
  then show ?thesis using assms(2) by (simp add: sys_refresh_def)
qed

text \<open>C2: at every moment of every interleaving of arriving clients, sessions at work and ending
  sessions, everything that any session has written to its backend is one of the gateway's own
  commands or a single supported client command; and with TLS towards the backend required, nothing
  but \<^verbatim>\<open>AUTH TLS\<close> has gone to a backend in clear, no file has moved over a connection that is not TLS,
  and a client whose backend connection is not secured has been told nothing but that the service
  is not available.\<close>

theorem concurrent_sessions_stay_safe:
  assumes "(sys_step lib)\<^sup>*\<^sup>* (sys_start gw0) y" and "l \<in> set (sys_live y)" and "s = live_own l"
  shows "(\<forall>(sec, b) \<in> set (tx (backend_conn s)). (\<exists>cmd \<in> set gateway_commands. prefix b (command_bytes cmd)) \<or>
      (\<exists>line. one_command line \<and> prefix b (utf8_encode line)))
    \<and> (arg_tls (live_args l) \<noteq> None \<longrightarrow>
        clear_is_auth (tx (backend_conn s)) \<and> (\<forall>(tls, outcome) \<in> set (transfers s). tls) \<and>
        (secure (backend_conn s) \<or>
         (\<forall>(sec, b) \<in> set (tx (client_conn s)). prefix b (utf8_encode (reply_line ''421 Service not available'')))))"
proof -
  have "\<forall>l \<in> set (sys_live y). live_safe lib l"
    using assms(1) by (induction rule: rtranclp_induct) (use sys_step_safe in \<open>simp_all add: sys_start_def\<close>)
  then have l: "live_safe lib l" using assms(2) by blast
  then have "all_permitted (backend_conn s)" using assms(3) by (simp add: safe_def)
  moreover have "unsecured s \<or> over_tls (live_args l) s \<or> failed_closed s" if "arg_tls (live_args l) \<noteq> None"
    using l assms(3) that by (auto simp: safe_def guarded_def split: if_splits)
  ultimately show ?thesis
    by (fastforce simp: all_permitted_def permitted_def unsecured_def failed_closed_def over_tls_def refused_def clear_is_auth_def)
qed

text \<open>A client whose \<^verbatim>\<open>NOOP\<close> has been forwarded: four steps of its session.\<close>

definition short_config :: config where
  "short_config = default_config\<lparr>cfg_backends := [default_backend_config],
     cfg_limits := default_limits\<lparr>max_command_line_bytes := 64\<rparr>\<rparr>"

definition short_system :: "gateway \<Rightarrow> system" where
  "short_system gw = sys_arrive 0 short_client (SocketAddr (V4 LOCALHOST) 5000) (sys_start gw)"

abbreviation short_step :: "system \<Rightarrow> system" where
  "short_step \<equiv> sys_advance accepting_tls short_start quiet_turn 0"

text \<open>The only session of a system and where it stands.\<close>

definition stands :: "system \<Rightarrow> session_args \<Rightarrow> phase \<Rightarrow> session \<Rightarrow> bool" where
  "stands y args ph s \<longleftrightarrow> (\<exists>l. sys_live y = [l] \<and> live_phase l = ph \<and> live_args l = args \<and>
     adopt (sys_gateway y) (live_own l) = s)"

lemma stands_step:
  assumes "stands y args ph s" and "\<not> is_Over ph" and "advance lib args opn t ph s = (ph', s')"
  shows "sys_step lib y (sys_advance lib opn t 0 y)" and "stands (sys_advance lib opn t 0 y) args ph' s'"
    and "\<exists>l. sys_live (sys_advance lib opn t 0 y) = [l] \<and> live_own l = s'"
proof -
  from assms(1) obtain l where l: "sys_live y = [l]" "live_phase l = ph" "live_args l = args"
    "adopt (sys_gateway y) (live_own l) = s" by (auto simp: stands_def)
  have y': "sys_advance lib opn t 0 y = y\<lparr>sys_gateway := publish s' (sys_gateway y), sys_live := [l\<lparr>live_phase := ph', live_own := s'\<rparr>]\<rparr>"
    using l assms(3) by (simp add: sys_advance_def)
  show "sys_step lib y (sys_advance lib opn t 0 y)" using l assms(2) by (intro sys_step.progress) simp_all
  show "stands (sys_advance lib opn t 0 y) args ph' s'" "\<exists>l. sys_live (sys_advance lib opn t 0 y) = [l] \<and> live_own l = s'"
    unfolding y' using l by (simp_all add: stands_def adopt_def publish_def)
qed

lemma short_system_starts:
  assumes "start_gateway lib (\<lambda>_. Inr ()) (Inr []) short_config = Inr gw"
  shows "stands (short_system gw) short_args Spawned
    (new_session short_client (new_port_manager default_port_range) new_metrics new_dns_cache None)"
  using assms
  by (auto simp: stands_def start_gateway_def short_config_def default_config_def new_selector_def option_or_def
      default_backend_tls_def default_backend_source_def default_passive_def default_limits_def short_system_def
      sys_arrive_def sys_start_def accept_connection_def try_acquire_def new_ip_limiter_def select_next_def Let_def
      spawned_def args_of_def short_args_def adopt_def new_session_def)

lemma short_stor_line:
  "stor_line short_args (s\<lparr>client_conn := short_client\<lparr>tx := ms\<rparr>, backend_conn := c\<rparr>) = None"
  by (simp add: stor_line_def short_args_def short_client_def new_conn_def line_evals short_noop)

lemma short_steps:
  "\<exists>s1 s2 s3 s4.
     advance accepting_tls short_args short_start quiet_turn Spawned
       (new_session short_client (new_port_manager default_port_range) new_metrics new_dns_cache None) = (Connecting, s1) \<and>
     advance accepting_tls short_args short_start quiet_turn Connecting s1 = (Greeting, s2) \<and>
     advance accepting_tls short_args short_start quiet_turn Greeting s2 = (Waiting, s3) \<and>
     advance accepting_tls short_args short_start quiet_turn Waiting s3 = (Waiting, s4) \<and>
     tx (backend_conn s4) = [(False, ''NOOP'' @ [newline])]"
proof -
  let ?banner = "new_conn [RxBytes (''220 hi'' @ [newline]), RxBytes (''200 ok'' @ [newline])] []"
  define s0 where "s0 = new_session short_client (new_port_manager default_port_range) new_metrics new_dns_cache None"
  define s1 where "s1 = on_metrics session_started s0"
  have e1: "advance accepting_tls short_args short_start quiet_turn Spawned s0 = (Connecting, s1)"
    by (simp add: s1_def)
  have s1: "s1 = s1\<lparr>s_dns := new_dns_cache, s_rotator := None\<rparr>" by (simp add: s1_def s0_def new_session_def)
  define s2 where "s2 = s1\<lparr>s_rotator := None,
        s_dns := [host_key [] 21 \<mapsto> \<lparr>entry_addrs = [SocketAddr (V4 LOCALHOST) 21], resolved_at = 0\<rparr>], backend_conn := ?banner\<rparr>"
  have e2: "advance accepting_tls short_args short_start quiet_turn Connecting s1 = (Greeting, s2)"
    by (subst s1) (simp add: short_connect s2_def)
  have s2: "s2 = s2\<lparr>client_conn := short_client, backend_conn := ?banner\<rparr>"
    by (simp add: s2_def s1_def s0_def new_session_def)
  define s3 where "s3 = s2\<lparr>client_conn := short_client\<lparr>tx := [(False, ''220 hi'' @ [newline])]\<rparr>,
        backend_conn := new_conn [RxBytes (''200 ok'' @ [newline])] []\<rparr>"
  have e3: "advance accepting_tls short_args short_start quiet_turn Greeting s2 = (Waiting, s3)"
    by (subst s2) (simp only: advance.simps short_greet s3_def prod.case sum.case)
  obtain s4 where e4: "advance accepting_tls short_args short_start quiet_turn Waiting s3 = (Waiting, s4)"
    and s4: "tx (backend_conn s4) = [(False, ''NOOP'' @ [newline])]"
    unfolding s3_def advance.simps short_stor_line option.case short_turn by simp
  show ?thesis by (intro exI conjI, rule e1 [unfolded s0_def], rule e2, rule e3, rule e4, rule s4)
qed

theorem concurrent_sessions_stay_safe_witness:
  "\<exists>gw0 l. start_gateway accepting_tls (\<lambda>_. Inr ()) (Inr []) short_config = Inr gw0 \<and>
     (sys_step accepting_tls)\<^sup>*\<^sup>* (sys_start gw0) (short_step (short_step (short_step (short_step (short_system gw0))))) \<and>
     sys_live (short_step (short_step (short_step (short_step (short_system gw0))))) = [l] \<and>
     tx (backend_conn (live_own l)) = [(False, ''NOOP'' @ [newline])] \<and>
     (\<exists>line. one_command line \<and> prefix (''NOOP'' @ [newline]) (utf8_encode line))"
proof -
  obtain gw0 where g: "start_gateway accepting_tls (\<lambda>_. Inr ()) (Inr []) short_config = Inr gw0"
    by (simp add: start_gateway_def short_config_def default_config_def new_selector_def option_or_def
        default_backend_tls_def default_backend_source_def)
  let ?y = "short_system gw0"
  let ?s0 = "new_session short_client (new_port_manager default_port_range) new_metrics new_dns_cache None"
  have p0: "stands ?y short_args Spawned ?s0" by (rule short_system_starts [OF g])
  from short_steps obtain s1 s2 s3 s4 where
    e1: "advance accepting_tls short_args short_start quiet_turn Spawned ?s0 = (Connecting, s1)" and
    e2: "advance accepting_tls short_args short_start quiet_turn Connecting s1 = (Greeting, s2)" and
    e3: "advance accepting_tls short_args short_start quiet_turn Greeting s2 = (Waiting, s3)" and
    e4: "advance accepting_tls short_args short_start quiet_turn Waiting s3 = (Waiting, s4)" and
    s4: "tx (backend_conn s4) = [(False, ''NOOP'' @ [newline])]" by blast
  note t1 = stands_step [OF p0 _ e1] and t2 = stands_step [OF _ _ e2] and t3 = stands_step [OF _ _ e3]
    and t4 = stands_step [OF _ _ e4]
  note p1 = t1(2) [simplified]
  note p2 = t2(2) [OF p1, simplified]
  note p3 = t3(2) [OF p2, simplified]
  have "tx short_client = []" by (simp add: short_client_def new_conn_def)
  then have "sys_step accepting_tls (sys_start gw0) ?y" unfolding short_system_def by (rule sys_step.arrive)
  then have r: "(sys_step accepting_tls)\<^sup>*\<^sup>* (sys_start gw0) (short_step (short_step (short_step (short_step ?y))))"
    using t1(1) [simplified] t2(1) [OF p1, simplified] t3(1) [OF p2, simplified] t4(1) [OF p3, simplified]
    by (meson rtranclp.intros)
  from t4(3) [OF p3, simplified] obtain l where
    l: "sys_live (short_step (short_step (short_step (short_step ?y)))) = [l]" "live_own l = s4" by blast
  have "\<not> (\<exists>cmd \<in> set gateway_commands. prefix (''NOOP'' @ [newline]) (command_bytes cmd))"
    by (simp add: gateway_commands_def command_bytes_def lit_def ch_def wire_evals)
  then have "\<exists>line. one_command line \<and> prefix (''NOOP'' @ [newline]) (utf8_encode line)"
    using concurrent_sessions_stay_safe [OF r, of l s4] l s4 by simp
  with g r l s4 show ?thesis by blast
qed

end
