(* ===== verification/Spec2Isabelle.thy ===== *)
theory Spec2Isabelle
  imports Session_Function Concurrent_Safety
begin

text \<open>
  A verification of the FTP upload gateway: a process that accepts plain FTP control connections
  from devices, forwards a small set of commands to one of several backends (optionally over
  explicit FTPS and from rotating source addresses), answers \<^verbatim>\<open>PASV\<close> and \<^verbatim>\<open>EPSV\<close> itself from a
  pool of ports, and relays the bytes of an upload between the client's and the backend's data
  connections.

  \<^bold>\<open>Parts and theories.\<close>
  \<^item> \<open>Gateway_Prelude\<close>, \<open>Rust_Strings\<close>, \<open>Rust_Net\<close>: machine integers at their width, I/O errors,
    the string, UTF-8, number and address operations of the standard library that the code uses,
    and the locale \<open>guard_pool\<close>: the contract of every component that hands out guards.
  \<^item> \<open>Ftp_Command\<close>, \<open>Ftp_Reply\<close>: \<^verbatim>\<open>src/protocol\<close>, parsing and printing commands and replies.
  \<^item> \<open>Gateway_Config\<close>: \<^verbatim>\<open>src/config.rs\<close>, all settings, the environment overrides in the order
    of the code, validation and loading. The YAML deserializer and the file system are parameters.
  \<^item> \<open>Port_Manager\<close>, \<open>Ip_Limiter\<close>, \<open>Source_Rotator\<close>, \<open>Metrics\<close>: the shared pools
    (\<^verbatim>\<open>src/pasv/port_manager.rs\<close>, \<^verbatim>\<open>src/server/ip_limiter.rs\<close>, \<^verbatim>\<open>src/backend/rotator.rs\<close>,
    \<^verbatim>\<open>src/metrics.rs\<close>). Each interprets \<open>guard_pool\<close>, so what is proved of any history of
    acquiring and dropping holds of each; \<open>Port_Manager\<close> also has the critical sections as a step
    relation with interleaved tasks.
  \<^item> \<open>Backend_Selector\<close>, \<open>Dns_Cache\<close>, \<open>Source_Select\<close>, \<open>Backend_Connection\<close>: choosing a backend,
    its address and the source address, and connecting (\<^verbatim>\<open>src/backend\<close>).
  \<^item> \<open>Conn_Io\<close>: buffered connections as scripts of what the peer does, and the bounded line reads
    of \<^verbatim>\<open>src/server/session.rs\<close>.
  \<^item> \<open>Backend_Tls\<close>: \<^verbatim>\<open>src/backend/tls.rs\<close>, the connector and the upgrade; rustls is a record of
    functions.
  \<^item> \<open>Relay\<close>: \<^verbatim>\<open>src/pasv/relay.rs\<close>, opening the backend's data connection and relaying in time.
  \<^item> \<open>Metrics_Server\<close>: \<^verbatim>\<open>src/server/metrics_server.rs\<close>, reading and answering requests.
  \<^item> \<open>Session\<close>: \<^verbatim>\<open>src/server/session.rs\<close>, the whole of \<^verbatim>\<open>handle\<close>. A step of a session is a
    function on the record of its connections and shared components that returns a value or how
    the turn ends (the macros \<^verbatim>\<open>client_io!\<close> and \<^verbatim>\<open>backend_io!\<close>); a rule per combinator carries
    an invariant through all of it (locales \<open>turn_frame\<close> and \<open>session_frame\<close>).
  \<^item> \<open>Session_Safety\<close>: what may be sent to a backend, and that required TLS fails closed.
    \<open>Session_Function\<close>: forwarding in lockstep, what an upload reports, refused input.
    \<open>Session_Guards\<close>: a session gives back every guard it takes from the pools.
  \<^item> \<open>Listener\<close>: \<^verbatim>\<open>src/server/listener.rs\<close>, start-up, admission, the end of sessions, shutdown.
    It refines an abstract admission control through the locale \<open>admission_pool\<close>, an extension
    of \<open>guard_pool\<close> that \<open>Ip_Limiter\<close> interprets.
  \<^item> \<open>Gateway_Main\<close>: \<^verbatim>\<open>src/main.rs\<close>, and the gateway after any number of served clients.
  \<^item> \<open>Session_Steps\<close>: the same session cut where it waits; run alone the steps compute \<^verbatim>\<open>handle\<close>.
    \<open>Concurrent_Gateway\<close>, \<open>Concurrent_Safety\<close>: any number of sessions whose steps interleave with
    each other, with arriving clients and with the rotator's task; in every reachable state the
    shared components account for what the sessions hold, and what the sessions have written is
    safe.

  \<^bold>\<open>State.\<close> A structure of the code is a record with its fields, an atomic counter a word that
  wraps or saturates as the code makes it, a mutex-protected map a map or association list.
  Waiting is modelled by its outcome: a read may find the timer fired (a stall in the script), a
  connect may not finish, and in the relay arrivals and writes carry times.

  \<^bold>\<open>Loops.\<close> Every loop is a total function; those that are not structural have a measure (the
  input still to come). No fuel is used: bounded loops of the code (the port scan, the 32 lines of
  a reply) recurse on their own bound.

  \<^bold>\<open>Concurrency.\<close> The listener is a list of events in the order in which they take effect; port
  allocation is a step relation of interleaved tasks; and the whole gateway is a step relation in
  which a session runs from one of its long waits to the next (for the backend, a command line, the
  data connection, a slot, the replies, the relay) on the shared components as the others left them.
  Within such a step the accesses to the shared components are taken together; each of them is
  atomic in the code (a lock or an atomic counter), and the pools' contracts (\<open>guard_pool\<close>) do not
  depend on their order. In \<open>Session\<close>, where a session is one function, the others appear only
  during the wait for a data slot (\<open>t_others\<close>).

  \<^bold>\<open>Not modelled.\<close> Log output (except the texts that the code computes for it; so also the flag
  \<^verbatim>\<open>warned_port_outside_range\<close>, which only suppresses a repeated log line), socket options,
  the command line parser and the signal handlers (the signal is an event), the tokio runtime beyond the outcomes above, and
  third-party code (rustls, serde, the resolver, the operating system's interface list), which
  enters as arguments.
\<close>

end
